theory Spec2Isabelle
  imports Complex_Main
begin

section \<open>Numbers, errors and Python string primitives\<close>

text \<open>
  The script \<^verbatim>\<open>typst_inkscape.py\<close> computes with Python floats (NumPy float64).
  A float is modelled as a real number or as \<open>NonFinite\<close>, which stands for any of
  \<^verbatim>\<open>inf\<close>, \<^verbatim>\<open>-inf\<close> and \<^verbatim>\<open>nan\<close>. Sums, differences and products of finite
  floats are those of the real numbers: rounding and overflow are not modelled. An
  operation with an operand that is not finite gives a result that is not finite, as in
  IEEE arithmetic (\<^verbatim>\<open>0 * inf\<close> is \<^verbatim>\<open>nan\<close>, and \<^verbatim>\<open>@\<close> computes every product of a
  matrix product). Strings are lists of 8-bit characters (code points 0 to 255).

  Exceptions are values of type \<open>error\<close>, named as in Python.
\<close>

datatype error = ValueError | IndexError | AttributeError

datatype pyfloat = Finite real | NonFinite

instantiation pyfloat :: "{zero, one, plus, minus, times}"
begin

definition zero_pyfloat_def: "0 = Finite 0"

definition one_pyfloat_def: "1 = Finite 1"

definition plus_pyfloat_def:
  "a + b = (case a of Finite x \<Rightarrow> (case b of Finite y \<Rightarrow> Finite (x + y) | NonFinite \<Rightarrow> NonFinite)
            | NonFinite \<Rightarrow> NonFinite)"

definition minus_pyfloat_def:
  "a - b = (case a of Finite x \<Rightarrow> (case b of Finite y \<Rightarrow> Finite (x - y) | NonFinite \<Rightarrow> NonFinite)
            | NonFinite \<Rightarrow> NonFinite)"

definition times_pyfloat_def:
  "a * b = (case a of Finite x \<Rightarrow> (case b of Finite y \<Rightarrow> Finite (x * y) | NonFinite \<Rightarrow> NonFinite)
            | NonFinite \<Rightarrow> NonFinite)"

instance ..

end

instance pyfloat :: comm_semiring
proof
  fix a b c :: pyfloat
  show "a + b + c = a + (b + c)"
    by (simp add: plus_pyfloat_def split: pyfloat.splits)
  show "a + b = b + a"
    by (simp add: plus_pyfloat_def split: pyfloat.splits)
  show "a * b * c = a * (b * c)"
    by (simp add: times_pyfloat_def split: pyfloat.splits)
  show "a * b = b * a"
    by (simp add: times_pyfloat_def split: pyfloat.splits)
  show "(a + b) * c = a * c + b * c"
    by (simp add: plus_pyfloat_def times_pyfloat_def algebra_simps split: pyfloat.splits)
qed

instance pyfloat :: comm_monoid_add
proof
  fix a :: pyfloat
  show "0 + a = a"
    by (simp add: plus_pyfloat_def zero_pyfloat_def split: pyfloat.splits)
qed

instance pyfloat :: comm_monoid_mult
proof
  fix a :: pyfloat
  show "1 * a = a"
    by (simp add: times_pyfloat_def one_pyfloat_def split: pyfloat.splits)
qed

instance pyfloat :: numeral ..

definition py_sqrt :: "pyfloat \<Rightarrow> pyfloat" where
  \<comment> \<open>\<^verbatim>\<open>np.sqrt\<close>: \<^verbatim>\<open>nan\<close> for a negative number\<close>
  "py_sqrt a = (case a of Finite x \<Rightarrow> if x < 0 then NonFinite else Finite (sqrt x)
                | NonFinite \<Rightarrow> NonFinite)"

definition is_space :: "char \<Rightarrow> bool" where
  \<comment> \<open>\<^verbatim>\<open>\s\<close> of \<^verbatim>\<open>re\<close> on \<^verbatim>\<open>str\<close> patterns, and the characters \<^verbatim>\<open>str.strip()\<close> and
      \<^verbatim>\<open>str.split()\<close> treat as whitespace, below code point 256\<close>
  "is_space c = (c \<in> set [CHR 0x09, CHR 0x0A, CHR 0x0B, CHR 0x0C, CHR 0x0D, CHR 0x1C, CHR 0x1D,
                           CHR 0x1E, CHR 0x1F, CHR 0x20, CHR 0x85, CHR 0xA0])"

definition is_digit :: "char \<Rightarrow> bool" where
  \<comment> \<open>\<^verbatim>\<open>\d\<close> below code point 256\<close>
  "is_digit c = (c \<in> set ''0123456789'')"

definition float_space :: "char \<Rightarrow> bool" where
  \<comment> \<open>the whitespace \<^verbatim>\<open>float()\<close> strips from both ends of its argument\<close>
  "float_space c = (c \<in> set [CHR 0x09, CHR 0x0A, CHR 0x0B, CHR 0x0C, CHR 0x0D, CHR 0x20,
                              CHR 0x85, CHR 0xA0])"

definition strip_with :: "(char \<Rightarrow> bool) \<Rightarrow> string \<Rightarrow> string" where
  "strip_with p s = rev (dropWhile p (rev (dropWhile p s)))"

definition strip :: "string \<Rightarrow> string" where
  \<comment> \<open>\<^verbatim>\<open>str.strip()\<close>\<close>
  "strip s = strip_with is_space s"

fun strip_prefix :: "string \<Rightarrow> string \<Rightarrow> string option" where
  "strip_prefix [] s = Some s"
| "strip_prefix (p # ps) [] = None"
| "strip_prefix (p # ps) (c # cs) = (if p = c then strip_prefix ps cs else None)"

subsection \<open>\<^verbatim>\<open>float(str)\<close>\<close>

definition digit_val :: "char \<Rightarrow> nat" where
  \<comment> \<open>the value of a decimal digit, from its code point\<close>
  "digit_val c = of_char c - of_char (CHR ''0'')"

fun digits_val :: "nat \<Rightarrow> string \<Rightarrow> nat" where
  "digits_val acc [] = acc"
| "digits_val acc (c # cs) = digits_val (10 * acc + digit_val c) cs"

fun underscores_ok :: "char \<Rightarrow> string \<Rightarrow> bool" where
  \<comment> \<open>an underscore stands only between two digits; the first argument is the previous
      character\<close>
  "underscores_ok prev [] = (prev \<noteq> CHR ''_'')"
| "underscores_ok prev (c # cs) =
     ((if c = CHR ''_'' then is_digit prev else (prev = CHR ''_'' \<longrightarrow> is_digit c))
      \<and> underscores_ok c cs)"

fun ci_match :: "string \<Rightarrow> string \<Rightarrow> string \<Rightarrow> bool" where
  \<comment> \<open>the string is the word given in lower and in upper case, letter by letter in
      either case\<close>
  "ci_match [] [] [] = True"
| "ci_match (l # ls) (u # us) (c # cs) = ((c = l \<or> c = u) \<and> ci_match ls us cs)"
| "ci_match _ _ _ = False"

definition is_inf_or_nan :: "string \<Rightarrow> bool" where
  "is_inf_or_nan s = (ci_match ''inf'' ''INF'' s \<or> ci_match ''infinity'' ''INFINITY'' s
                      \<or> ci_match ''nan'' ''NAN'' s)"

definition split_sign :: "string \<Rightarrow> bool \<times> string" where
  "split_sign s = (case s of [] \<Rightarrow> (False, [])
                   | c # r \<Rightarrow> if c = CHR ''-'' then (True, r)
                             else if c = CHR ''+'' then (False, r) else (False, s))"

definition parse_exponent :: "real \<Rightarrow> string \<Rightarrow> real option" where
  \<comment> \<open>what follows the mantissa \<open>m\<close>: nothing, or \<^verbatim>\<open>e\<close>, an optional sign and digits\<close>
  "parse_exponent m s =
     (case s of [] \<Rightarrow> Some m
      | c # r \<Rightarrow>
          if c = CHR ''e'' \<or> c = CHR ''E'' then
            (case split_sign r of (neg, ds) \<Rightarrow>
               if ds \<noteq> [] \<and> list_all is_digit ds
               then Some (if neg then m / 10 ^ digits_val 0 ds else m * 10 ^ digits_val 0 ds)
               else None)
          else None)"

definition parse_decimal :: "string \<Rightarrow> real option" where
  \<comment> \<open>an unsigned decimal literal: digits, an optional point and digits, at least one
      digit in all, an optional exponent, and nothing after it\<close>
  "parse_decimal s =
     (let ip = takeWhile is_digit s; r1 = dropWhile is_digit s
      in case (case r1 of [] \<Rightarrow> ([], [])
               | c # r \<Rightarrow> if c = CHR ''.'' then (takeWhile is_digit r, dropWhile is_digit r)
                         else ([], r1)) of
           (fp, r2) \<Rightarrow>
             if ip = [] \<and> fp = [] then None
             else parse_exponent (real (digits_val 0 (ip @ fp)) / 10 ^ length fp) r2)"

definition py_float :: "string \<Rightarrow> error + pyfloat" where
  \<comment> \<open>\<^verbatim>\<open>float(s)\<close>: \<open>Inl ValueError\<close> where Python raises; \<^verbatim>\<open>inf\<close>, \<^verbatim>\<open>infinity\<close> and
      \<^verbatim>\<open>nan\<close>, in any case and with a sign or without, are floats that are not finite\<close>
  "py_float s =
     (if \<not> underscores_ok (CHR 0x00) s then Inl ValueError
      else case split_sign (strip_with float_space (filter (\<lambda>c. c \<noteq> CHR ''_'') s)) of
             (neg, body) \<Rightarrow>
               if is_inf_or_nan body then Inr NonFinite
               else (case parse_decimal body of None \<Rightarrow> Inl ValueError
                     | Some m \<Rightarrow> Inr (Finite (if neg then - m else m))))"

fun float_list :: "string list \<Rightarrow> error + pyfloat list" where
  \<comment> \<open>\<^verbatim>\<open>[float(arg) for arg in tokens]\<close>: the first failure is raised\<close>
  "float_list [] = Inr []"
| "float_list (t # ts) =
     (case py_float t of Inl e \<Rightarrow> Inl e
      | Inr v \<Rightarrow> (case float_list ts of Inl e \<Rightarrow> Inl e | Inr vs \<Rightarrow> Inr (v # vs)))"

section \<open>3\<times>3 matrices\<close>

text \<open>A 3\<times>3 NumPy array, row by row; \<open>matmul\<close> is the operator \<^verbatim>\<open>@\<close>.\<close>

datatype mat = Mat (m00: pyfloat) (m01: pyfloat) (m02: pyfloat)
                   (m10: pyfloat) (m11: pyfloat) (m12: pyfloat)
                   (m20: pyfloat) (m21: pyfloat) (m22: pyfloat)

definition identity3 :: mat where
  "identity3 = Mat 1 0 0 0 1 0 0 0 1"

fun matmul :: "mat \<Rightarrow> mat \<Rightarrow> mat" where
  "matmul (Mat a00 a01 a02 a10 a11 a12 a20 a21 a22) (Mat b00 b01 b02 b10 b11 b12 b20 b21 b22) =
     Mat (a00 * b00 + a01 * b10 + a02 * b20) (a00 * b01 + a01 * b11 + a02 * b21)
         (a00 * b02 + a01 * b12 + a02 * b22)
         (a10 * b00 + a11 * b10 + a12 * b20) (a10 * b01 + a11 * b11 + a12 * b21)
         (a10 * b02 + a11 * b12 + a12 * b22)
         (a20 * b00 + a21 * b10 + a22 * b20) (a20 * b01 + a21 * b11 + a22 * b21)
         (a20 * b02 + a21 * b12 + a22 * b22)"

fun matvec ::
  "mat \<Rightarrow> pyfloat \<times> pyfloat \<times> pyfloat \<Rightarrow> pyfloat \<times> pyfloat \<times> pyfloat" where
  \<comment> \<open>a matrix applied to a vector of three components\<close>
  "matvec (Mat a00 a01 a02 a10 a11 a12 a20 a21 a22) (x, y, w) =
     (a00 * x + a01 * y + a02 * w, a10 * x + a11 * y + a12 * w, a20 * x + a21 * y + a22 * w)"

definition mat_prod :: "mat list \<Rightarrow> mat" where
  \<comment> \<open>the product \<open>M\<^sub>1 \<cdot> M\<^sub>2 \<cdot> \<dots> \<cdot> M\<^sub>n\<close> of a list of matrices, the identity for the empty list\<close>
  "mat_prod Ms = foldr matmul Ms identity3"

section \<open>The Transform Parser: \<^verbatim>\<open>parse_transform\<close>\<close>

text \<open>
  \<^verbatim>\<open>re.findall(r'\s*(matrix|translate|scale)\s*\(([^)]+)\)', s)\<close>. The pattern has no
  choice to backtrack over: whitespace is followed by a name, a name by whitespace and an
  opening parenthesis, and the argument text runs to the first closing parenthesis.
  \<open>match_at\<close> matches the pattern at the start of a string and returns the two groups
  and the text after the match; \<open>findall\<close> is the scan, which goes on after a match and
  moves one character on where there is none.
\<close>

definition match_name :: "string \<Rightarrow> (string \<times> string) option" where
  "match_name s =
     (case strip_prefix ''matrix'' s of Some r \<Rightarrow> Some (''matrix'', r)
      | None \<Rightarrow>
     (case strip_prefix ''translate'' s of Some r \<Rightarrow> Some (''translate'', r)
      | None \<Rightarrow>
     (case strip_prefix ''scale'' s of Some r \<Rightarrow> Some (''scale'', r)
      | None \<Rightarrow> None)))"

definition match_at :: "string \<Rightarrow> ((string \<times> string) \<times> string) option" where
  "match_at s =
     (case match_name (dropWhile is_space s) of None \<Rightarrow> None
      | Some (func, r1) \<Rightarrow>
          (case dropWhile is_space r1 of [] \<Rightarrow> None
           | c # r2 \<Rightarrow>
               if c \<noteq> CHR ''('' then None
               else (let args_str = takeWhile (\<lambda>c. c \<noteq> CHR '')'') r2;
                         r3 = dropWhile (\<lambda>c. c \<noteq> CHR '')'') r2
                     in if args_str = [] \<or> r3 = [] then None
                        else Some ((func, args_str), tl r3))))"

lemma strip_prefix_length: "strip_prefix p s = Some r \<Longrightarrow> length s = length p + length r"
  by (induction p s rule: strip_prefix.induct) (auto split: if_splits)

lemma match_name_length: "match_name s = Some (f, r) \<Longrightarrow> length r < length s"
  by (auto simp: match_name_def split: option.splits dest: strip_prefix_length)

lemma match_at_shorter:
  assumes "match_at s = Some (m, rest)"
  shows "length rest < length s"
proof -
  from assms obtain f r1 c r2 where
    n: "match_name (dropWhile is_space s) = Some (f, r1)" and
    d: "dropWhile is_space r1 = c # r2" and
    r: "rest = tl (dropWhile (\<lambda>c. c \<noteq> CHR '')'') r2)"
    by (auto simp: match_at_def Let_def split: option.splits list.splits if_splits)
  have "length rest \<le> length r2"
    unfolding r using length_dropWhile_le [of "\<lambda>c. c \<noteq> CHR '')''" r2] by simp
  also have "length r2 < length r1"
    using length_dropWhile_le [of is_space r1] d by simp
  also have "length r1 < length (dropWhile is_space s)"
    using n by (rule match_name_length)
  also have "\<dots> \<le> length s"
    by (rule length_dropWhile_le)
  finally show ?thesis .
qed

function findall :: "string \<Rightarrow> (string \<times> string) list" where
  "findall [] = []"
| "findall (c # cs) =
     (case match_at (c # cs) of Some (m, rest) \<Rightarrow> m # findall rest | None \<Rightarrow> findall cs)"
  by pat_completeness auto
termination
  by (relation "measure length") (auto dest: match_at_shorter)

definition is_sep :: "char \<Rightarrow> bool" where
  \<comment> \<open>the class \<^verbatim>\<open>[,\s]\<close>\<close>
  "is_sep c = (c = CHR '','' \<or> is_space c)"

fun re_split :: "string \<Rightarrow> string list" where
  \<comment> \<open>\<^verbatim>\<open>re.split(r'[,\s]+', s)\<close>: the pieces between the maximal runs of separators; a
      string that starts or ends with a separator has an empty first or last piece\<close>
  "re_split [] = [[]]"
| "re_split (c # cs) =
     (if is_sep c then (case cs of [] \<Rightarrow> [[], []]
                        | d # ds \<Rightarrow> if is_sep d then re_split cs else [] # re_split cs)
      else (case re_split cs of [] \<Rightarrow> [[c]] | t # ts \<Rightarrow> (c # t) # ts))"

definition parse_args :: "string \<Rightarrow> error + pyfloat list" where
  \<comment> \<open>line 76\<close>
  "parse_args args_str = float_list (re_split (strip args_str))"

definition func_matrix :: "string \<Rightarrow> pyfloat list \<Rightarrow> error + mat" where
  \<comment> \<open>lines 77 to 91: the matrix \<open>m\<close> of one function; \<^verbatim>\<open>args[0]\<close> on an empty list
      raises \<^verbatim>\<open>IndexError\<close>\<close>
  "func_matrix func args =
     (if func = ''matrix'' \<and> length args = 6
      then Inr (Mat (args ! 0) (args ! 2) (args ! 4) (args ! 1) (args ! 3) (args ! 5) 0 0 1)
      else if func = ''translate''
      then (case args of [] \<Rightarrow> Inl IndexError
            | tx # rest \<Rightarrow> Inr (Mat 1 0 tx 0 1 (case rest of [] \<Rightarrow> 0 | ty # _ \<Rightarrow> ty) 0 0 1))
      else if func = ''scale''
      then (case args of [] \<Rightarrow> Inl IndexError
            | sx # rest \<Rightarrow> Inr (Mat sx 0 0 0 (case rest of [] \<Rightarrow> sx | sy # _ \<Rightarrow> sy) 0 0 0 1))
      else Inr identity3)"

fun transform_loop :: "(string \<times> string) list \<Rightarrow> mat \<Rightarrow> error + mat" where
  \<comment> \<open>the loop of lines 75 to 93 over the matches, on the accumulator
      \<^verbatim>\<open>total_transform\<close>\<close>
  "transform_loop [] total_transform = Inr total_transform"
| "transform_loop ((func, args_str) # matches) total_transform =
     (case parse_args args_str of Inl e \<Rightarrow> Inl e
      | Inr args \<Rightarrow>
          (case func_matrix func args of Inl e \<Rightarrow> Inl e
           | Inr m \<Rightarrow> transform_loop matches (matmul m total_transform)))"

definition parse_transform :: "string \<Rightarrow> error + mat" where
  "parse_transform transform_str =
     (if transform_str = [] then Inr identity3
      else transform_loop (findall transform_str) identity3)"

section \<open>The document tree\<close>

text \<open>
  An element of the parsed tree, as \<^verbatim>\<open>lxml\<close> gives it: its tag in the form
  \<^verbatim>\<open>{namespace}name\<close>, its attributes, the text before its first child, its children
  and the text after its end tag. Python objects have an identity, and the list of the
  nodes to remove holds references: \<open>ident\<close> stands for the identity of the object,
  and the identities in a tree are distinct (a hypothesis where a property needs it).
  The selector \<open>text_of\<close> is the attribute \<^verbatim>\<open>text\<close> of the source. Comments and
  processing instructions are not modelled, and the tree is the one the XML parser
  returned.
\<close>

datatype element =
  Element (ident: nat) (tag: string) (attrib: "(string \<times> string) list") (text_of: string)
          (children: "element list") (tail: string)

definition get_opt :: "element \<Rightarrow> string \<Rightarrow> string option" where
  \<comment> \<open>\<^verbatim>\<open>element.get(key)\<close>, \<open>None\<close> for an absent attribute\<close>
  "get_opt e key = map_of (attrib e) key"

definition get :: "element \<Rightarrow> string \<Rightarrow> string \<Rightarrow> string" where
  \<comment> \<open>\<^verbatim>\<open>element.get(key, default)\<close>\<close>
  "get e key dflt = (case map_of (attrib e) key of None \<Rightarrow> dflt | Some v \<Rightarrow> v)"

definition svg_svg :: string where
  \<comment> \<open>\<^verbatim>\<open>etree.QName(SVG_NS, 'svg')\<close>\<close>
  "svg_svg = ''{http://www.w3.org/2000/svg}svg''"

definition svg_text :: string where
  "svg_text = ''{http://www.w3.org/2000/svg}text''"

fun itertext :: "element \<Rightarrow> string" where
  \<comment> \<open>\<^verbatim>\<open>"".join(element.itertext())\<close>: the element's text, then for each child its own
      texts and its tail\<close>
  "itertext (Element i t a x cs tx) = x @ concat (map (\<lambda>c. itertext c @ tail c) cs)"

fun text_nodes :: "element list \<Rightarrow> element \<Rightarrow> (element list \<times> element) list" where
  \<comment> \<open>\<^verbatim>\<open>root.xpath('//svg:text')\<close>: the text elements in document order, each with what
      \<^verbatim>\<open>iterancestors()\<close> yields for it, the parent first and the root last\<close>
  "text_nodes anc (Element i t a x cs tx) =
     (if t = svg_text then [(anc, Element i t a x cs tx)] else [])
     @ concat (map (text_nodes (Element i t a x cs tx # anc)) cs)"

section \<open>The Dimension Resolver: \<^verbatim>\<open>parse_svg_dimensions\<close>\<close>

definition PX_TO_PT :: pyfloat where
  "PX_TO_PT = Finite (72 / 96)"

definition numeric_char :: "char \<Rightarrow> bool" where
  \<comment> \<open>the class \<^verbatim>\<open>[\d.]\<close>\<close>
  "numeric_char c = (is_digit c \<or> c = CHR ''.'')"

definition sub_non_numeric :: "string \<Rightarrow> string" where
  \<comment> \<open>\<^verbatim>\<open>re.sub(r'[^\d.]', '', s)\<close>\<close>
  "sub_non_numeric s = filter numeric_char s"

fun py_split :: "string \<Rightarrow> string list" where
  \<comment> \<open>\<^verbatim>\<open>str.split()\<close>: the maximal runs of characters that are not whitespace\<close>
  "py_split [] = []"
| "py_split (c # cs) =
     (if is_space c then py_split cs
      else (case cs of [] \<Rightarrow> [[c]]
            | d # ds \<Rightarrow> if is_space d then [c] # py_split cs
                       else (case py_split cs of [] \<Rightarrow> [[c]] | t # ts \<Rightarrow> (c # t) # ts)))"

definition truthy :: "string option \<Rightarrow> bool" where
  \<comment> \<open>the truth value of an attribute read with \<^verbatim>\<open>get\<close>: absent and empty are false\<close>
  "truthy v = (case v of None \<Rightarrow> False | Some s \<Rightarrow> s \<noteq> [])"

datatype dim_error = MissingDimensions | DimValueError error

definition parse_svg_dimensions :: "element \<Rightarrow> dim_error + pyfloat \<times> pyfloat" where
  \<comment> \<open>\<open>MissingDimensions\<close> is the \<^verbatim>\<open>ValueError\<close> raised at line 59; \<open>DimValueError\<close>
      carries what \<^verbatim>\<open>float\<close> raised, or the \<^verbatim>\<open>ValueError\<close> of unpacking a sequence
      that has not four items. The unpacking of line 55 takes four items from the
      \<^verbatim>\<open>map\<close> iterator and asks for a fifth, so \<^verbatim>\<open>float\<close> runs on the first five
      tokens at most.\<close>
  "parse_svg_dimensions doc_root =
     (if truthy (get_opt doc_root ''width'') \<and> truthy (get_opt doc_root ''height'') then
        (case py_float (sub_non_numeric (get doc_root ''width'' [])) of
           Inl e \<Rightarrow> Inl (DimValueError e)
         | Inr w \<Rightarrow>
             (case py_float (sub_non_numeric (get doc_root ''height'' [])) of
                Inl e \<Rightarrow> Inl (DimValueError e)
              | Inr h \<Rightarrow> Inr (w * PX_TO_PT, h * PX_TO_PT)))
      else
        (case get_opt doc_root ''viewBox'' of
           Some vb \<Rightarrow>
             (case float_list (take 5 (py_split vb)) of
                Inl e \<Rightarrow> Inl (DimValueError e)
              | Inr vs \<Rightarrow>
                  (case vs of
                     [_, _, w_vb, h_vb] \<Rightarrow> Inr (w_vb * PX_TO_PT, h_vb * PX_TO_PT)
                   | _ \<Rightarrow> Inl (DimValueError ValueError)))
         | None \<Rightarrow> Inl MissingDimensions))"

section \<open>The Cumulative Transform Resolver: \<^verbatim>\<open>get_cumulative_transform\<close>\<close>

fun ancestors_loop :: "element list \<Rightarrow> mat \<Rightarrow> error + mat" where
  \<comment> \<open>the loop of lines 103 to 109 over \<^verbatim>\<open>element.iterancestors()\<close>\<close>
  "ancestors_loop [] transform = Inr transform"
| "ancestors_loop (ancestor # rest) transform =
     (if tag ancestor = svg_svg then Inr transform
      else (case parse_transform (get ancestor ''transform'' []) of
              Inl e \<Rightarrow> Inl e
            | Inr ancestor_transform \<Rightarrow>
                ancestors_loop rest (matmul ancestor_transform transform)))"

definition get_cumulative_transform :: "element list \<Rightarrow> element \<Rightarrow> error + mat" where
  \<comment> \<open>the first argument is what \<^verbatim>\<open>element.iterancestors()\<close> yields\<close>
  "get_cumulative_transform ancestors element =
     (case ancestors_loop ancestors identity3 of
        Inl e \<Rightarrow> Inl e
      | Inr transform \<Rightarrow>
          (case parse_transform (get element ''transform'' []) of
             Inl e \<Rightarrow> Inl e
           | Inr element_transform \<Rightarrow> Inr (matmul transform element_transform)))"

section \<open>The Text Label Extractor: the loop of \<^verbatim>\<open>process_svg\<close>\<close>

definition match_font_size :: "string \<Rightarrow> string option" where
  \<comment> \<open>\<^verbatim>\<open>font-size:([\d.]+)px\<close> at the start of a string: the group\<close>
  "match_font_size s =
     (case strip_prefix ''font-size:'' s of None \<Rightarrow> None
      | Some r \<Rightarrow>
          if takeWhile numeric_char r \<noteq> []
             \<and> strip_prefix ''px'' (dropWhile numeric_char r) \<noteq> None
          then Some (takeWhile numeric_char r) else None)"

fun search_font_size :: "string \<Rightarrow> string option" where
  \<comment> \<open>\<^verbatim>\<open>re.search\<close>: the leftmost match\<close>
  "search_font_size [] = None"
| "search_font_size (c # cs) =
     (case match_font_size (c # cs) of Some g \<Rightarrow> Some g | None \<Rightarrow> search_font_size cs)"

definition match_anchor :: "string \<Rightarrow> string option" where
  \<comment> \<open>\<^verbatim>\<open>text-anchor:(start|middle|end)\<close> at the start of a string: the group\<close>
  "match_anchor s =
     (case strip_prefix ''text-anchor:'' s of None \<Rightarrow> None
      | Some r \<Rightarrow>
          if strip_prefix ''start'' r \<noteq> None then Some ''start''
          else if strip_prefix ''middle'' r \<noteq> None then Some ''middle''
          else if strip_prefix ''end'' r \<noteq> None then Some ''end''
          else None)"

fun search_anchor :: "string \<Rightarrow> string option" where
  "search_anchor [] = None"
| "search_anchor (c # cs) =
     (case match_anchor (c # cs) of Some g \<Rightarrow> Some g | None \<Rightarrow> search_anchor cs)"

definition font_size_of :: "string \<Rightarrow> error + pyfloat" where
  \<comment> \<open>lines 152 and 153\<close>
  "font_size_of style =
     (case search_font_size style of None \<Rightarrow> Inr 16 | Some g \<Rightarrow> py_float g)"

definition text_anchor_of :: "element \<Rightarrow> string" where
  \<comment> \<open>lines 156 and 157\<close>
  "text_anchor_of text_node =
     (case search_anchor (get text_node ''style'' []) of
        Some a \<Rightarrow> a
      | None \<Rightarrow> get text_node ''text-anchor'' ''start'')"

record label =
  x_pt :: pyfloat
  y_pt :: pyfloat
  font_size_pt :: pyfloat
  content :: string
  anchor :: string

definition make_label ::
  "mat \<Rightarrow> pyfloat \<Rightarrow> pyfloat \<Rightarrow> pyfloat \<Rightarrow> string \<Rightarrow> string \<Rightarrow> label" where
  \<comment> \<open>lines 168 to 191\<close>
  "make_label transform_matrix x y font_size_px raw_text text_anchor =
     (case matvec transform_matrix (x, y, 1) of
        (final_x_px, final_y_px, _) \<Rightarrow>
          (let sy = py_sqrt ((m10 transform_matrix)\<^sup>2 + (m11 transform_matrix)\<^sup>2);
               final_font_size_px = font_size_px * sy;
               final_x_pt = final_x_px * PX_TO_PT;
               final_y_pt = final_y_px * PX_TO_PT;
               final_font_size_pt = final_font_size_px * PX_TO_PT;
               ascent_estimate = Finite 0.8 * final_font_size_pt
           in \<lparr>x_pt = final_x_pt, y_pt = final_y_pt - ascent_estimate,
               font_size_pt = final_font_size_pt, content = raw_text,
               anchor = text_anchor\<rparr>))"

definition process_text_node :: "element list \<Rightarrow> element \<Rightarrow> error + label option" where
  \<comment> \<open>the body of the loop, lines 146 to 191: \<open>Inr None\<close> is \<^verbatim>\<open>continue\<close>\<close>
  "process_text_node ancestors text_node =
     (case py_float (get text_node ''x'' ''0'') of
        Inl e \<Rightarrow> Inl e
      | Inr x \<Rightarrow>
     (case py_float (get text_node ''y'' ''0'') of
        Inl e \<Rightarrow> Inl e
      | Inr y \<Rightarrow>
     (case font_size_of (get text_node ''style'' []) of
        Inl e \<Rightarrow> Inl e
      | Inr font_size_px \<Rightarrow>
          (let text_anchor = text_anchor_of text_node;
               raw_text = strip (itertext text_node)
           in if raw_text = [] then Inr None
              else (case get_cumulative_transform ancestors text_node of
                      Inl e \<Rightarrow> Inl e
                    | Inr transform_matrix \<Rightarrow>
                        Inr (Some (make_label transform_matrix x y font_size_px
                                     raw_text text_anchor)))))))"

fun text_loop ::
  "(element list \<times> element) list \<Rightarrow> label list \<Rightarrow> nat list \<Rightarrow> error + label list \<times> nat list"
where
  \<comment> \<open>the loop of lines 145 to 194 on \<^verbatim>\<open>labels\<close> and \<^verbatim>\<open>text_nodes_to_remove\<close>\<close>
  "text_loop [] labels to_remove = Inr (labels, to_remove)"
| "text_loop ((ancestors, text_node) # rest) labels to_remove =
     (case process_text_node ancestors text_node of
        Inl e \<Rightarrow> Inl e
      | Inr None \<Rightarrow> text_loop rest labels to_remove
      | Inr (Some l) \<Rightarrow> text_loop rest (labels @ [l]) (to_remove @ [ident text_node]))"

section \<open>Cleaning the tree and the whole run\<close>

fun prune :: "nat list \<Rightarrow> element \<Rightarrow> element" where
  \<comment> \<open>the tree once every listed node has been removed from its parent\<close>
  "prune R (Element i t a x cs tx) =
     Element i t a x (map (prune R) (filter (\<lambda>c. ident c \<notin> set R) cs)) tx"

definition clean_svg :: "nat list \<Rightarrow> element \<Rightarrow> error + element" where
  \<comment> \<open>lines 197 and 198: \<^verbatim>\<open>getparent()\<close> of the root is \<^verbatim>\<open>None\<close>, and the call of
      \<^verbatim>\<open>remove\<close> on it raises \<^verbatim>\<open>AttributeError\<close>; the root, when listed, is the
      first node of the list\<close>
  "clean_svg R doc_root =
     (if ident doc_root \<in> set R then Inl AttributeError else Inr (prune R doc_root))"

record result =
  width_pt :: pyfloat
  height_pt :: pyfloat
  labels :: "label list"
  removed :: "nat list"
  clean_tree :: element

datatype run_error = DimensionError dim_error | Uncaught error

definition process_svg :: "element \<Rightarrow> run_error + result" where
  \<comment> \<open>the run on a parsed document. \<open>DimensionError\<close> is the exit of lines 134 to 136,
      \<open>Uncaught\<close> an exception that ends the run; both come before any file is written.
      The text of the Typst file, a rendering of \<open>labels\<close> and the dimensions, is not
      modelled.\<close>
  "process_svg doc_root =
     (case parse_svg_dimensions doc_root of
        Inl e \<Rightarrow> Inl (DimensionError e)
      | Inr (w, h) \<Rightarrow>
          (case text_loop (text_nodes [] doc_root) [] [] of
             Inl e \<Rightarrow> Inl (Uncaught e)
           | Inr (ls, R) \<Rightarrow>
               (case clean_svg R doc_root of
                  Inl e \<Rightarrow> Inl (Uncaught e)
                | Inr t \<Rightarrow>
                    Inr \<lparr>width_pt = w, height_pt = h, labels = ls, removed = R,
                         clean_tree = t\<rparr>)))"

section \<open>Notions the properties are stated with\<close>

definition match_matrix :: "string \<times> string \<Rightarrow> error + mat" where
  \<comment> \<open>the matrix \<open>m\<close> that one pass of the loop of \<^verbatim>\<open>parse_transform\<close> builds from a
      match, lines 76 to 91\<close>
  "match_matrix m =
     (case parse_args (snd m) of Inl e \<Rightarrow> Inl e | Inr args \<Rightarrow> func_matrix (fst m) args)"

definition arg_tokens :: "string \<Rightarrow> string list" where
  \<comment> \<open>the argument tokens of a match, the list that line 76 passes to \<^verbatim>\<open>float\<close>\<close>
  "arg_tokens args_str = re_split (strip args_str)"

definition recognized :: "string \<Rightarrow> bool" where
  "recognized f = (f \<in> {''matrix'', ''translate'', ''scale''})"

definition no_paren :: "char \<Rightarrow> bool" where
  "no_paren c = (c \<noteq> CHR ''('' \<and> c \<noteq> CHR '')'')"

definition ends_with :: "string \<Rightarrow> string \<Rightarrow> bool" where
  "ends_with s g = (strip_prefix (rev g) (rev s) \<noteq> None)"

text \<open>
  A transform attribute written as a list of function calls. A call is a triple of the
  separators before it (whitespace and commas), the function name and the text between
  its parentheses.
\<close>

definition render_call :: "string \<times> string \<times> string \<Rightarrow> string" where
  "render_call c = (case c of (sep, f, a) \<Rightarrow> sep @ f @ ''('' @ a @ '')'')"

definition render :: "(string \<times> string \<times> string) list \<Rightarrow> string" where
  "render cs = concat (map render_call cs)"

definition call_of :: "string \<times> string \<times> string \<Rightarrow> string \<times> string" where
  "call_of c = (case c of (sep, f, a) \<Rightarrow> (f, a))"

definition well_formed_call :: "string \<times> string \<times> string \<Rightarrow> bool" where
  \<comment> \<open>a recognized function has a non-empty argument text without a closing parenthesis;
      the name of any other function has no whitespace and no parenthesis and does not end
      in a recognized name, and its argument text has no parenthesis\<close>
  "well_formed_call c =
     (case c of (sep, f, a) \<Rightarrow>
        list_all is_sep sep \<and>
        (if recognized f then a \<noteq> [] \<and> CHR '')'' \<notin> set a
         else list_all (\<lambda>c. no_paren c \<and> \<not> is_space c) f
              \<and> \<not> ends_with f ''matrix'' \<and> \<not> ends_with f ''translate''
              \<and> \<not> ends_with f ''scale'' \<and> list_all no_paren a))"

definition bottom_entry :: "pyfloat \<Rightarrow> pyfloat \<Rightarrow> pyfloat \<Rightarrow> pyfloat \<Rightarrow> bool" where
  \<comment> \<open>an entry \<open>w\<close> of the bottom row, below \<open>u\<close> and \<open>v\<close>, is its constant \<open>k\<close>, or it
      is not finite and neither is an entry above it\<close>
  "bottom_entry k u v w = (w = k \<or> (w = NonFinite \<and> (u = NonFinite \<or> v = NonFinite)))"

definition affine :: "mat \<Rightarrow> bool" where
  \<comment> \<open>the bottom row is \<open>0 0 1\<close>, but for the columns that hold a value that is not finite\<close>
  "affine M = (bottom_entry 0 (m00 M) (m10 M) (m20 M)
             \<and> bottom_entry 0 (m01 M) (m11 M) (m21 M)
             \<and> bottom_entry 1 (m02 M) (m12 M) (m22 M))"

fun ids_of :: "element \<Rightarrow> nat list" where
  \<comment> \<open>the identities of an element and of all its descendants, in document order\<close>
  "ids_of (Element i t a x cs tx) = i # concat (map ids_of cs)"

subsection \<open>Concrete inputs\<close>

definition C2_calls :: "(string \<times> string \<times> string) list" where
  "C2_calls = [([], ''translate'', ''10,0''), ('' '', ''scale'', ''2'')]"

definition C8_calls :: "(string \<times> string \<times> string) list" where
  "C8_calls = [([], ''rotate'', ''45''), ('' '', ''translate'', ''1,2''), ('', '', ''skewX'', ''30'')]"

definition C8_only_unrecognized :: "(string \<times> string \<times> string) list" where
  "C8_only_unrecognized = [([], ''rotate'', ''45''), ('' '', ''skewX'', ''30'')]"

text \<open>
  Documents for the dimensions, for a nested \<^verbatim>\<open>svg\<close> element, for the end-to-end
  scenario of the specification and for text elements without content.
\<close>

definition dim_root :: "(string \<times> string) list \<Rightarrow> element" where
  \<comment> \<open>a root element with the given attributes and no content\<close>
  "dim_root attrs = Element 0 svg_svg attrs [] [] []"

definition svg_g :: string where
  "svg_g = ''{http://www.w3.org/2000/svg}g''"

definition C1_text :: element where
  "C1_text = Element 3 svg_text [] ''A'' [] []"

definition C1_inner :: element where
  "C1_inner = Element 2 svg_svg [] [] [C1_text] []"

definition C1_group :: element where
  "C1_group = Element 1 svg_g [(''transform'', ''translate(1,0)'')] [] [C1_inner] []"

definition C1_doc :: element where
  "C1_doc = Element 0 svg_svg [(''width'', ''10''), (''height'', ''10'')] [] [C1_group] []"

definition C3_text :: element where
  "C3_text = Element 2 svg_text
     [(''x'', ''10''), (''y'', ''20''), (''style'', ''font-size:20px;text-anchor:middle'')]
     ''Label'' [] []"

definition C3_group :: element where
  "C3_group = Element 1 svg_g [(''transform'', ''translate(5,5)'')] [] [C3_text] []"

definition C3_doc :: element where
  "C3_doc = Element 0 svg_svg [(''width'', ''100px''), (''height'', ''50px'')] [] [C3_group] []"

definition C9_blank :: element where
  "C9_blank = Element 1 svg_text [(''x'', ''1 2'')] '' '' [] []"

definition C9_doc :: element where
  "C9_doc = Element 0 svg_svg [(''width'', ''10''), (''height'', ''10'')] [] [C9_blank] []"

definition C9_inner :: element where
  "C9_inner = Element 2 svg_text [] [] [] []"

definition C9_outer :: element where
  "C9_outer = Element 1 svg_text [] ''Hello'' [C9_inner] []"

definition C9_nested :: element where
  "C9_nested = Element 0 svg_svg [(''width'', ''10''), (''height'', ''10'')] [] [C9_outer] []"

definition C9_quiet :: element where
  "C9_quiet = Element 2 svg_text [(''x'', ''3'')] ''  '' [] []"

definition C9_shown :: element where
  "C9_shown = Element 1 svg_text [] ''Hi'' [] []"

definition C9_page :: element where
  "C9_page = Element 0 svg_svg [(''width'', ''10''), (''height'', ''10'')] []
               [C9_shown, C9_quiet] []"

section \<open>Float arithmetic\<close>

lemma pyfloat_arith:
  "Finite x + Finite y = Finite (x + y)"
  "Finite x - Finite y = Finite (x - y)"
  "Finite x * Finite y = Finite (x * y)"
  "NonFinite + a = NonFinite" "a + NonFinite = NonFinite"
  "NonFinite - a = NonFinite" "a - NonFinite = NonFinite"
  "NonFinite * a = NonFinite" "a * NonFinite = NonFinite"
  by (simp_all add: plus_pyfloat_def minus_pyfloat_def times_pyfloat_def split: pyfloat.splits)

lemma numeral_pyfloat: "numeral k = Finite (numeral k)"
proof (induction k)
  case One
  show ?case by (simp add: one_pyfloat_def)
next
  case (Bit0 k)
  have "(numeral (num.Bit0 k) :: pyfloat) = Finite (numeral k) + Finite (numeral k)"
    unfolding numeral_Bit0 Bit0 ..
  also have "\<dots> = Finite (numeral k + numeral k)" by (rule pyfloat_arith)
  also have "numeral k + numeral k = (numeral (num.Bit0 k) :: real)"
    by (rule numeral_Bit0 [symmetric])
  finally show ?case .
next
  case (Bit1 k)
  have "(numeral (num.Bit1 k) :: pyfloat) = Finite (numeral k) + Finite (numeral k) + Finite 1"
    unfolding numeral_Bit1 Bit1 one_pyfloat_def ..
  also have "\<dots> = Finite (numeral k + numeral k + 1)" by (simp only: pyfloat_arith)
  also have "numeral k + numeral k + 1 = (numeral (num.Bit1 k) :: real)"
    by (rule numeral_Bit1 [symmetric])
  finally show ?case .
qed

lemmas pyfloat_eval = pyfloat_arith zero_pyfloat_def one_pyfloat_def numeral_pyfloat

section \<open>Matrix algebra and the scan of the pattern\<close>

lemma matmul_assoc: "matmul (matmul A B) C = matmul A (matmul B C)"
  by (cases A; cases B; cases C) (simp add: algebra_simps)

lemma mat_prod_Nil: "mat_prod [] = identity3"
  by (simp add: mat_prod_def)

lemma mat_prod_Cons: "mat_prod (M # Ms) = matmul M (mat_prod Ms)"
  by (simp add: mat_prod_def)

lemma transform_loop_foldr:
  "map match_matrix ms = map Inr Ms \<Longrightarrow>
   transform_loop ms T = Inr (foldr matmul (rev Ms) T)"
proof (induction ms arbitrary: Ms T)
  case Nil
  then show ?case by simp
next
  case (Cons m ms)
  then obtain M Ms' where Ms: "Ms = M # Ms'" and M: "match_matrix m = Inr M"
    and rest: "map match_matrix ms = map Inr Ms'"
    by (cases Ms) auto
  obtain f a where m: "m = (f, a)" by (cases m)
  from M m obtain args where "parse_args a = Inr args" "func_matrix f args = Inr M"
    by (auto simp: match_matrix_def split: sum.splits)
  then show ?case
    using Cons.IH [OF rest, of "matmul M T"]
    by (simp add: m Ms)
qed

lemma transform_loop_prod:
  "map match_matrix ms = map Inr Ms \<Longrightarrow>
   transform_loop ms identity3 = Inr (mat_prod (rev Ms))"
  by (simp add: transform_loop_foldr mat_prod_def)

lemma strip_prefix_iff: "strip_prefix p s = Some r \<longleftrightarrow> s = p @ r"
  by (induction p s rule: strip_prefix.induct) auto

lemma match_name_SomeD:
  "match_name s = Some (f, r) \<Longrightarrow> f \<in> {''matrix'', ''translate'', ''scale''} \<and> s = f @ r"
  by (auto simp: match_name_def strip_prefix_iff split: option.splits)

lemma match_at_SomeD:
  assumes "match_at s = Some ((f, a), r)"
  shows "\<exists>w1 w2. s = w1 @ f @ w2 @ ''('' @ a @ '')'' @ r \<and> list_all is_space w1 \<and> list_all is_space w2
          \<and> f \<in> {''matrix'', ''translate'', ''scale''} \<and> a \<noteq> [] \<and> CHR '')'' \<notin> set a"
proof -
  from assms obtain r1 r2 where
    n: "match_name (dropWhile is_space s) = Some (f, r1)" and
    d: "dropWhile is_space r1 = CHR ''('' # r2" and
    a: "a = takeWhile (\<lambda>c. c \<noteq> CHR '')'') r2" "a \<noteq> []" and
    r3: "dropWhile (\<lambda>c. c \<noteq> CHR '')'') r2 \<noteq> []" and
    r: "r = tl (dropWhile (\<lambda>c. c \<noteq> CHR '')'') r2)"
    by (auto simp: match_at_def Let_def split: option.splits list.splits if_splits)
  from n have f: "f \<in> {''matrix'', ''translate'', ''scale''}" and s1: "dropWhile is_space s = f @ r1"
    using match_name_SomeD by blast+
  have "hd (dropWhile (\<lambda>c. c \<noteq> CHR '')'') r2) = CHR '')''"
    using r3 hd_dropWhile [of "\<lambda>c. c \<noteq> CHR '')''" r2] by simp
  then have r3': "dropWhile (\<lambda>c. c \<noteq> CHR '')'') r2 = CHR '')'' # r"
    using r3 r by (cases "dropWhile (\<lambda>c. c \<noteq> CHR '')'') r2") auto
  have r2: "r2 = a @ CHR '')'' # r"
    using takeWhile_dropWhile_id [of "\<lambda>c. c \<noteq> CHR '')''" r2] a(1) r3' by simp
  have na: "CHR '')'' \<notin> set a"
    unfolding a(1) using set_takeWhileD by fastforce
  have "s = takeWhile is_space s @ dropWhile is_space s" by simp
  also have "dropWhile is_space s = f @ r1" by (rule s1)
  also have "r1 = takeWhile is_space r1 @ dropWhile is_space r1" by simp
  also have "dropWhile is_space r1 = ''('' @ a @ '')'' @ r" using d r2 by simp
  finally have "s = takeWhile is_space s @ f @ takeWhile is_space r1 @ ''('' @ a @ '')'' @ r" .
  moreover have "list_all is_space (takeWhile is_space s)" "list_all is_space (takeWhile is_space r1)"
    by (auto simp: list_all_iff dest: set_takeWhileD)
  ultimately show ?thesis
    using f a(2) na by blast
qed

lemma match_at_recognized:
  assumes "f \<in> {''matrix'', ''translate'', ''scale''}" "a \<noteq> []" "CHR '')'' \<notin> set a"
  shows "match_at (f @ ''('' @ a @ '')'' @ r) = Some ((f, a), r)"
proof -
  have t: "takeWhile (\<lambda>c. c \<noteq> CHR '')'') (a @ CHR '')'' # r) = a"
    using assms(3) by (subst takeWhile_append2) auto
  have d: "dropWhile (\<lambda>c. c \<noteq> CHR '')'') (a @ CHR '')'' # r) = CHR '')'' # r"
    using assms(3) by (subst dropWhile_append2) auto
  from assms(1) consider "f = ''matrix''" | "f = ''translate''" | "f = ''scale''" by auto
  then show ?thesis
    by cases (simp_all add: match_at_def match_name_def is_space_def t d assms(2))
qed

lemma ends_with_iff: "ends_with s g \<longleftrightarrow> (\<exists>p. s = p @ g)"
proof -
  have "ends_with s g \<longleftrightarrow> (\<exists>r. rev s = rev g @ r)"
    by (auto simp: ends_with_def strip_prefix_iff)
  also have "\<dots> \<longleftrightarrow> (\<exists>p. s = p @ g)"
  proof
    assume "\<exists>r. rev s = rev g @ r"
    then obtain r where "rev s = rev g @ r" ..
    then have "rev (rev s) = rev (rev g @ r)" by simp
    then have "s = rev r @ g" by simp
    then show "\<exists>p. s = p @ g" ..
  next
    assume "\<exists>p. s = p @ g"
    then obtain p where "s = p @ g" ..
    then have "rev s = rev g @ rev p" by simp
    then show "\<exists>r. rev s = rev g @ r" ..
  qed
  finally show ?thesis .
qed

lemma is_space_no_paren: "is_space c \<Longrightarrow> no_paren c"
  by (auto simp: is_space_def no_paren_def)

lemma recognized_no_paren: "recognized g \<Longrightarrow> list_all no_paren g"
  by (auto simp: recognized_def no_paren_def)

lemma recognized_not_Nil: "recognized g \<Longrightarrow> g \<noteq> []"
  by (auto simp: recognized_def)

lemma findall_nonempty:
  "s \<noteq> [] \<Longrightarrow>
   findall s = (case match_at s of Some (m, rest) \<Rightarrow> m # findall rest | None \<Rightarrow> findall (tl s))"
  by (cases s) (simp_all split: option.splits)

lemma match_at_Nil: "match_at [] = None"
  by (simp add: match_at_def match_name_def)

lemma match_at_space: "is_space c \<Longrightarrow> match_at (c # s) = match_at s"
  by (simp add: match_at_def)

lemma match_at_other:
  "\<not> is_space c \<Longrightarrow> c \<noteq> CHR ''m'' \<Longrightarrow> c \<noteq> CHR ''t'' \<Longrightarrow> c \<noteq> CHR ''s'' \<Longrightarrow> match_at (c # s) = None"
  by (simp add: match_at_def match_name_def)

lemma findall_skip_sep: "is_sep c \<Longrightarrow> findall (c # s) = findall s"
proof (cases "is_space c")
  case True
  show ?thesis
  proof (cases s)
    case Nil
    then show ?thesis using True by (simp add: match_at_space match_at_Nil)
  next
    case (Cons d ds)
    then show ?thesis using True by (simp add: match_at_space split: option.splits)
  qed
next
  case False
  assume "is_sep c"
  with False have "c = CHR '',''" by (simp add: is_sep_def)
  then have "match_at (c # s) = None" using False by (intro match_at_other) auto
  then show ?thesis by simp
qed

lemma findall_skip_seps: "list_all is_sep w \<Longrightarrow> findall (w @ s) = findall s"
  by (induction w) (simp_all add: findall_skip_sep del: findall.simps)

lemma match_at_first_paren:
  assumes "match_at s = Some ((g, b), r)"
  shows "\<exists>w1 w2 t. takeWhile no_paren s = w1 @ g @ w2 \<and> list_all is_space w1
            \<and> list_all is_space w2 \<and> recognized g \<and> dropWhile no_paren s = CHR ''('' # t"
proof -
  from match_at_SomeD [OF assms] obtain w1 w2 where
    s: "s = (w1 @ g @ w2) @ CHR ''('' # b @ '')'' @ r" and w: "list_all is_space w1" "list_all is_space w2"
    and g: "recognized g"
    by (auto simp: recognized_def)
  have np: "\<forall>c\<in>set (w1 @ g @ w2). no_paren c"
    using w recognized_no_paren [OF g] by (auto simp: list_all_iff is_space_no_paren)
  have "takeWhile no_paren s = w1 @ g @ w2"
    unfolding s using np by (subst takeWhile_append2) (auto simp: no_paren_def)
  moreover have "dropWhile no_paren s = CHR ''('' # b @ '')'' @ r"
    unfolding s using np by (subst dropWhile_append2) (auto simp: no_paren_def)
  ultimately show ?thesis using w g by blast
qed

lemma match_at_before_close:
  assumes "list_all no_paren q"
  shows "match_at (q @ CHR '')'' # rest) = None"
proof (rule ccontr)
  assume "match_at (q @ CHR '')'' # rest) \<noteq> None"
  then obtain g b r where "match_at (q @ CHR '')'' # rest) = Some ((g, b), r)" by auto
  from match_at_first_paren [OF this] obtain t where
    "dropWhile no_paren (q @ CHR '')'' # rest) = CHR ''('' # t" by blast
  moreover have "dropWhile no_paren (q @ CHR '')'' # rest) = CHR '')'' # rest"
    using assms by (subst dropWhile_append2) (auto simp: list_all_iff no_paren_def)
  ultimately show False by simp
qed

lemma findall_skip_args:
  "list_all no_paren a \<Longrightarrow> findall (a @ CHR '')'' # rest) = findall rest"
proof (induction a)
  case Nil
  have "match_at (CHR '')'' # rest) = None"
    using match_at_before_close [of "[]"] by simp
  then show ?case by simp
next
  case (Cons c a)
  have "match_at ((c # a) @ CHR '')'' # rest) = None"
    using Cons.prems by (rule match_at_before_close)
  then show ?case using Cons by simp
qed

lemma match_at_inside_name:
  assumes f: "list_all (\<lambda>c. no_paren c \<and> \<not> is_space c) f'"
    and nr: "\<not> recognized f'"
  shows "match_at (f' @ CHR ''('' # X) = None"
proof (rule ccontr)
  assume "match_at (f' @ CHR ''('' # X) \<noteq> None"
  then obtain g b r where "match_at (f' @ CHR ''('' # X) = Some ((g, b), r)" by auto
  from match_at_first_paren [OF this] obtain w1 w2 where
    t: "takeWhile no_paren (f' @ CHR ''('' # X) = w1 @ g @ w2" and
    w: "list_all is_space w1" "list_all is_space w2" and g: "recognized g" by blast
  have "takeWhile no_paren (f' @ CHR ''('' # X) = f'"
    using f by (subst takeWhile_append2) (auto simp: list_all_iff no_paren_def)
  with t have eq: "f' = w1 @ g @ w2" by simp
  have "w1 = []"
  proof (cases w1)
    case (Cons c cs)
    then have "is_space c" "c \<in> set f'" using w(1) eq by auto
    then show ?thesis using f by (auto simp: list_all_iff)
  qed simp
  moreover have "w2 = []"
  proof (cases w2)
    case (Cons c cs)
    then have "is_space c" "c \<in> set f'" using w(2) eq by auto
    then show ?thesis using f by (auto simp: list_all_iff)
  qed simp
  ultimately have "f' = g" using eq by simp
  then show False using g nr by simp
qed

lemma findall_skip_name:
  assumes f: "list_all (\<lambda>c. no_paren c \<and> \<not> is_space c) f"
    and e: "\<And>g. recognized g \<Longrightarrow> \<not> ends_with f g"
  shows "f = p @ f' \<Longrightarrow> findall (f' @ CHR ''('' # X) = findall (CHR ''('' # X)"
proof (induction f' arbitrary: p)
  case Nil
  then show ?case by simp
next
  case (Cons c f')
  have "list_all (\<lambda>c. no_paren c \<and> \<not> is_space c) (c # f')"
    using f Cons.prems by simp
  moreover have "\<not> recognized (c # f')"
    using e [of "c # f'"] Cons.prems by (auto simp: ends_with_iff)
  ultimately have "match_at ((c # f') @ CHR ''('' # X) = None"
    by (rule match_at_inside_name)
  moreover have "findall (f' @ CHR ''('' # X) = findall (CHR ''('' # X)"
    using Cons.IH [of "p @ [c]"] Cons.prems by simp
  ultimately show ?case by simp
qed

lemma findall_render_call:
  assumes "well_formed_call c"
  shows "findall (render_call c @ rest) =
         (if recognized (fst (snd c)) then call_of c # findall rest else findall rest)"
proof -
  obtain sep f a where c: "c = (sep, f, a)" by (cases c)
  from assms have sep: "list_all is_sep sep" by (simp add: c well_formed_call_def)
  have 1: "findall (render_call c @ rest) = findall (f @ CHR ''('' # a @ CHR '')'' # rest)"
    using findall_skip_seps [OF sep] by (simp add: c render_call_def)
  show ?thesis
  proof (cases "recognized f")
    case True
    with assms have a: "a \<noteq> []" "CHR '')'' \<notin> set a" by (simp_all add: c well_formed_call_def)
    have "match_at (f @ ''('' @ a @ '')'' @ rest) = Some ((f, a), rest)"
      using True a by (intro match_at_recognized) (simp_all add: recognized_def)
    moreover have "f @ CHR ''('' # a @ CHR '')'' # rest \<noteq> []" by simp
    ultimately show ?thesis
      using True 1 by (simp add: findall_nonempty c call_of_def)
  next
    case False
    with assms have f: "list_all (\<lambda>c. no_paren c \<and> \<not> is_space c) f"
      and e: "\<And>g. recognized g \<Longrightarrow> \<not> ends_with f g" and a: "list_all no_paren a"
      by (auto simp: c well_formed_call_def recognized_def)
    have "findall (f @ CHR ''('' # a @ CHR '')'' # rest) = findall (CHR ''('' # a @ CHR '')'' # rest)"
      using findall_skip_name [OF f e, of "[]" f] by simp
    also have "\<dots> = findall (a @ CHR '')'' # rest)"
      by (simp add: match_at_other is_space_def)
    also have "\<dots> = findall rest"
      using a by (rule findall_skip_args)
    finally show ?thesis using False 1 by (simp add: c)
  qed
qed

lemma findall_render:
  "list_all well_formed_call cs \<Longrightarrow>
   findall (render cs) = map call_of (filter (\<lambda>c. recognized (fst (snd c))) cs)"
proof (induction cs)
  case Nil
  then show ?case by (simp add: render_def)
next
  case (Cons c cs)
  have "render (c # cs) = render_call c @ render cs" by (simp add: render_def)
  then show ?case using Cons by (simp add: findall_render_call)
qed

lemma parse_transform_findall: "parse_transform s = transform_loop (findall s) identity3"
  by (simp add: parse_transform_def)

lemma transform_loop_step:
  "transform_loop ((f, a) # ms) T =
     (case match_matrix (f, a) of Inl e \<Rightarrow> Inl e | Inr M \<Rightarrow> transform_loop ms (matmul M T))"
  by (simp add: match_matrix_def split: sum.splits)

lemma py_float_error: "py_float t = Inl e \<Longrightarrow> e = ValueError"
  by (auto simp: py_float_def split: prod.splits option.splits if_splits)

lemma py_float_cases:
  obtains v where "py_float t = Inr v" | "py_float t = Inl ValueError"
  using py_float_error [of t] by (cases "py_float t") auto

lemma re_split_not_Nil: "re_split s \<noteq> []"
proof (induction s)
  case Nil
  show ?case by simp
next
  case (Cons c cs)
  show ?case
    by (subst re_split.simps) (use Cons in \<open>auto split: list.splits simp del: re_split.simps\<close>)
qed

lemma float_list_all_ok:
  "\<forall>t\<in>set ts. \<exists>v. py_float t = Inr v \<Longrightarrow> \<exists>vs. float_list ts = Inr vs \<and> length vs = length ts"
  by (induction ts) auto

lemma float_list_bad:
  "\<exists>t\<in>set ts. py_float t = Inl ValueError \<Longrightarrow> float_list ts = Inl ValueError"
proof (induction ts)
  case Nil
  then show ?case by simp
next
  case (Cons t ts)
  show ?case
  proof (cases t rule: py_float_cases)
    case (1 v)
    with Cons.prems have "\<exists>t\<in>set ts. py_float t = Inl ValueError" by auto
    with Cons have "float_list ts = Inl ValueError" by simp
    with 1 show ?thesis by simp
  next
    case 2
    then show ?thesis by simp
  qed
qed

lemma func_matrix_total: "args \<noteq> [] \<Longrightarrow> \<exists>M. func_matrix f args = Inr M"
  by (cases args) (simp_all add: func_matrix_def)

lemma match_matrix_ok:
  assumes "\<forall>t\<in>set (arg_tokens a). \<exists>v. py_float t = Inr v"
  shows "\<exists>M. match_matrix (f, a) = Inr M"
proof -
  from float_list_all_ok [OF assms [unfolded arg_tokens_def]] obtain vs where
    vs: "float_list (re_split (strip a)) = Inr vs" "length vs = length (re_split (strip a))" by blast
  then have "vs \<noteq> []" using re_split_not_Nil [of "strip a"] by auto
  from func_matrix_total [OF this] obtain M where "func_matrix f vs = Inr M" by blast
  then show ?thesis using vs by (simp add: match_matrix_def parse_args_def)
qed

lemma match_matrix_bad:
  assumes "\<exists>t\<in>set (arg_tokens a). py_float t = Inl ValueError"
  shows "match_matrix (f, a) = Inl ValueError"
  using float_list_bad [OF assms [unfolded arg_tokens_def]]
  by (simp add: match_matrix_def parse_args_def)

lemma transform_loop_ok:
  "\<forall>(f, a)\<in>set ms. \<forall>t\<in>set (arg_tokens a). \<exists>v. py_float t = Inr v \<Longrightarrow>
   \<exists>M. transform_loop ms T = Inr M"
proof (induction ms arbitrary: T)
  case Nil
  then show ?case by simp
next
  case (Cons m ms)
  obtain f a where m: "m = (f, a)" by (cases m)
  from Cons.prems m have "\<forall>t\<in>set (arg_tokens a). \<exists>v. py_float t = Inr v" by auto
  from match_matrix_ok [OF this] obtain M where M: "match_matrix (f, a) = Inr M" by blast
  from Cons.prems have "\<forall>(f, a)\<in>set ms. \<forall>t\<in>set (arg_tokens a). \<exists>v. py_float t = Inr v" by auto
  from Cons.IH [OF this] show ?case unfolding m transform_loop_step M by simp
qed

lemma transform_loop_bad:
  "(f, a) \<in> set ms \<Longrightarrow> tok \<in> set (arg_tokens a) \<Longrightarrow> py_float tok = Inl ValueError \<Longrightarrow>
   transform_loop ms T = Inl ValueError"
proof (induction ms arbitrary: T)
  case Nil
  then show ?case by simp
next
  case (Cons m ms)
  obtain g b where m: "m = (g, b)" by (cases m)
  show ?case
  proof (cases "\<exists>t\<in>set (arg_tokens b). py_float t = Inl ValueError")
    case True
    from match_matrix_bad [OF True] show ?thesis unfolding m transform_loop_step by simp
  next
    case False
    have "\<forall>t\<in>set (arg_tokens b). \<exists>v. py_float t = Inr v"
    proof
      fix t assume t: "t \<in> set (arg_tokens b)"
      show "\<exists>v. py_float t = Inr v"
        using False t by (cases t rule: py_float_cases) auto
    qed
    from match_matrix_ok [OF this] obtain M where M: "match_matrix (g, b) = Inr M" by blast
    from False Cons.prems(1,2,3) m have "(f, a) \<in> set ms" by auto
    from Cons.IH [OF this Cons.prems(2,3)] show ?thesis
      unfolding m transform_loop_step M by simp
  qed
qed

lemma transform_loop_fails_iff:
  "(\<exists>e. transform_loop ms T = Inl e) \<longleftrightarrow>
   (\<exists>m\<in>set ms. \<exists>t\<in>set (arg_tokens (snd m)). py_float t = Inl ValueError)"
proof
  assume fails: "\<exists>e. transform_loop ms T = Inl e"
  show "\<exists>m\<in>set ms. \<exists>t\<in>set (arg_tokens (snd m)). py_float t = Inl ValueError"
  proof (rule ccontr)
    assume none: "\<not> (\<exists>m\<in>set ms. \<exists>t\<in>set (arg_tokens (snd m)). py_float t = Inl ValueError)"
    have "\<forall>(f, a)\<in>set ms. \<forall>t\<in>set (arg_tokens a). \<exists>v. py_float t = Inr v"
    proof (intro ballI, clarify)
      fix f a t assume "(f, a) \<in> set ms" "t \<in> set (arg_tokens a)"
      with none have "py_float t \<noteq> Inl ValueError" by force
      then show "\<exists>v. py_float t = Inr v"
        by (cases t rule: py_float_cases) auto
    qed
    from transform_loop_ok [OF this, of T] fails show False by auto
  qed
next
  assume "\<exists>m\<in>set ms. \<exists>t\<in>set (arg_tokens (snd m)). py_float t = Inl ValueError"
  then obtain f a t where "(f, a) \<in> set ms" "t \<in> set (arg_tokens a)"
    "py_float t = Inl ValueError" by force
  then show "\<exists>e. transform_loop ms T = Inl e"
    using transform_loop_bad by blast
qed

lemma strip_with_id: "list_all (\<lambda>c. \<not> p c) s \<Longrightarrow> strip_with p s = s"
proof -
  assume a: "list_all (\<lambda>c. \<not> p c) s"
  have d: "\<And>xs. list_all (\<lambda>c. \<not> p c) xs \<Longrightarrow> dropWhile p xs = xs"
    by (case_tac xs) auto
  have "list_all (\<lambda>c. \<not> p c) (rev s)" using a by (simp add: list_all_iff)
  then show ?thesis using a by (simp add: strip_with_def d)
qed

lemma re_split_token: "list_all (\<lambda>c. \<not> is_sep c) s \<Longrightarrow> re_split s = [s]"
  by (induction s) auto

lemma re_split_append_sep:
  "list_all (\<lambda>c. \<not> is_sep c) s \<Longrightarrow> is_sep c \<Longrightarrow> t \<noteq> [] \<Longrightarrow> \<not> is_sep (hd t) \<Longrightarrow>
   re_split (s @ c # t) = s # re_split t"
  by (induction s) (auto split: list.splits)

lemma findall_single:
  assumes "recognized f" "a \<noteq> []" "CHR '')'' \<notin> set a"
  shows "findall (f @ ''('' @ a @ '')'') = [(f, a)]"
proof -
  have "match_at (f @ ''('' @ a @ '')'' @ []) = Some ((f, a), [])"
    using assms by (intro match_at_recognized) (simp_all add: recognized_def)
  then show ?thesis by (simp add: findall_nonempty)
qed

text \<open>
  Claim C2. The Transform Parser takes the recognized function calls (matrix, translate,
  scale) in the order they stand in the string and updates the accumulator \<open>A\<close> with the
  matrix \<open>M\<close> of each call as \<open>A := M \<cdot> A\<close>. So a string of recognized calls
  \<open>f\<^sub>1 f\<^sub>2 \<dots> f\<^sub>n\<close> whose arguments parse gives \<open>M(f\<^sub>n) \<cdot> \<dots> \<cdot> M(f\<^sub>2) \<cdot> M(f\<^sub>1)\<close>, and so
  does any string, with its matches in the place of the calls. The empty string, which
  also stands for an absent attribute, gives the identity.
\<close>

theorem parse_transform_left_multiplies:
  "(list_all well_formed_call cs \<and> list_all (\<lambda>c. recognized (fst (snd c))) cs
      \<and> map match_matrix (map call_of cs) = map Inr Ms
     \<longrightarrow> parse_transform (render cs) = Inr (mat_prod (rev Ms)))
   \<and> (map match_matrix (findall s) = map Inr Ns
     \<longrightarrow> parse_transform s = Inr (mat_prod (rev Ns)))
   \<and> transform_loop (m # ms) A =
       (case match_matrix m of Inl e \<Rightarrow> Inl e | Inr M \<Rightarrow> transform_loop ms (matmul M A))
   \<and> parse_transform [] = Inr identity3"
proof (intro conjI impI)
  assume a: "list_all well_formed_call cs \<and> list_all (\<lambda>c. recognized (fst (snd c))) cs
      \<and> map match_matrix (map call_of cs) = map Inr Ms"
  then have "filter (\<lambda>c. recognized (fst (snd c))) cs = cs"
    by (simp add: list_all_iff)
  with a have "findall (render cs) = map call_of cs"
    by (simp add: findall_render)
  with a show "parse_transform (render cs) = Inr (mat_prod (rev Ms))"
    by (simp add: parse_transform_findall transform_loop_prod)
next
  assume "map match_matrix (findall s) = map Inr Ns"
  then show "parse_transform s = Inr (mat_prod (rev Ns))"
    by (simp add: parse_transform_findall transform_loop_prod)
next
  show "transform_loop (m # ms) A =
       (case match_matrix m of Inl e \<Rightarrow> Inl e | Inr M \<Rightarrow> transform_loop ms (matmul M A))"
    by (cases m) (simp add: match_matrix_def split: sum.splits)
next
  show "parse_transform [] = Inr identity3"
    by (simp add: parse_transform_def)
qed

theorem parse_transform_left_multiplies_witness:
  "list_all well_formed_call C2_calls \<and> list_all (\<lambda>c. recognized (fst (snd c))) C2_calls
   \<and> map match_matrix (map call_of C2_calls) = map Inr [Mat 1 0 10 0 1 0 0 0 1, Mat 2 0 0 0 2 0 0 0 1]
   \<and> render C2_calls = ''translate(10,0) scale(2)''
   \<and> map match_matrix (findall ''translate(10,0) scale(2)'')
       = map Inr [Mat 1 0 10 0 1 0 0 0 1, Mat 2 0 0 0 2 0 0 0 1]
   \<and> parse_transform ''translate(10,0) scale(2)''
       = Inr (matmul (Mat 2 0 0 0 2 0 0 0 1) (Mat 1 0 10 0 1 0 0 0 1))
   \<and> parse_transform ''translate(10,0) scale(2)'' = Inr (Mat 2 0 20 0 2 0 0 0 1)"
proof -
  have h1: "list_all well_formed_call C2_calls" by code_simp
  have h2: "list_all (\<lambda>c. recognized (fst (snd c))) C2_calls" by code_simp
  have h3: "map match_matrix (map call_of C2_calls)
            = map Inr [Mat 1 0 10 0 1 0 0 0 1, Mat 2 0 0 0 2 0 0 0 1]" by code_simp
  have h4: "render C2_calls = ''translate(10,0) scale(2)''" by code_simp
  have h5: "map match_matrix (findall ''translate(10,0) scale(2)'')
       = map Inr [Mat 1 0 10 0 1 0 0 0 1, Mat 2 0 0 0 2 0 0 0 1]" by code_simp
  have p: "mat_prod (rev [Mat 1 0 10 0 1 0 0 0 1, Mat 2 0 0 0 2 0 0 0 1])
           = matmul (Mat 2 0 0 0 2 0 0 0 1) (Mat 1 0 10 0 1 0 0 0 1)"
    by (simp add: mat_prod_def identity3_def pyfloat_eval)
  have q: "matmul (Mat 2 0 0 0 2 0 0 0 1) (Mat 1 0 10 0 1 0 0 0 1) = Mat 2 0 20 0 2 0 0 0 1"
    by (simp add: pyfloat_eval)
  have "parse_transform (render C2_calls)
        = Inr (mat_prod (rev [Mat 1 0 10 0 1 0 0 0 1, Mat 2 0 0 0 2 0 0 0 1]))"
    using parse_transform_left_multiplies
            [of C2_calls "[Mat 1 0 10 0 1 0 0 0 1, Mat 2 0 0 0 2 0 0 0 1]"] h1 h2 h3
    by blast
  then have r1: "parse_transform ''translate(10,0) scale(2)''
        = Inr (matmul (Mat 2 0 0 0 2 0 0 0 1) (Mat 1 0 10 0 1 0 0 0 1))"
    unfolding h4 p .
  have "parse_transform ''translate(10,0) scale(2)''
        = Inr (mat_prod (rev [Mat 1 0 10 0 1 0 0 0 1, Mat 2 0 0 0 2 0 0 0 1]))"
    using parse_transform_left_multiplies
            [of _ _ "''translate(10,0) scale(2)''" "[Mat 1 0 10 0 1 0 0 0 1, Mat 2 0 0 0 2 0 0 0 1]"] h5
    by blast
  then have r2: "parse_transform ''translate(10,0) scale(2)'' = Inr (Mat 2 0 20 0 2 0 0 0 1)"
    unfolding p q .
  show ?thesis
    by (intro conjI h1 h2 h3 h4 h5 r1 r2)
qed

lemma match_matrix_scale1:
  assumes "s \<noteq> []" "list_all (\<lambda>c. \<not> is_sep c \<and> c \<noteq> CHR '')'') s"
  shows "match_matrix (''scale'', s) =
         (case py_float s of Inl e \<Rightarrow> Inl e | Inr v \<Rightarrow> Inr (Mat v 0 0 0 v 0 0 0 1))"
proof -
  have ns: "list_all (\<lambda>c. \<not> is_sep c) s" "list_all (\<lambda>c. \<not> is_space c) s"
    using assms(2) by (auto simp: list_all_iff is_sep_def)
  have "arg_tokens s = [s]"
    by (simp add: arg_tokens_def strip_def strip_with_id ns re_split_token)
  then show ?thesis
    by (simp add: match_matrix_def parse_args_def arg_tokens_def func_matrix_def split: sum.splits)
qed

lemma match_matrix_scale2:
  assumes "s \<noteq> []" "list_all (\<lambda>c. \<not> is_sep c \<and> c \<noteq> CHR '')'') s"
  shows "match_matrix (''scale'', s @ '','' @ s) =
         (case py_float s of Inl e \<Rightarrow> Inl e | Inr v \<Rightarrow> Inr (Mat v 0 0 0 v 0 0 0 1))"
proof -
  have ns: "list_all (\<lambda>c. \<not> is_sep c) s" "list_all (\<lambda>c. \<not> is_space c) s"
    using assms(2) by (auto simp: list_all_iff is_sep_def)
  have "list_all (\<lambda>c. \<not> is_space c) (s @ '','' @ s)"
    using ns by (simp add: is_space_def)
  then have "strip (s @ '','' @ s) = s @ '','' @ s"
    by (simp add: strip_def strip_with_id)
  moreover have "re_split (s @ CHR '','' # s) = s # re_split s"
    using ns(1) assms(1) by (intro re_split_append_sep) (auto simp: is_sep_def list_all_iff)
  ultimately have "arg_tokens (s @ '','' @ s) = [s, s]"
    by (simp add: arg_tokens_def re_split_token ns)
  then show ?thesis
    by (simp add: match_matrix_def parse_args_def arg_tokens_def func_matrix_def split: sum.splits)
qed

text \<open>
  Claim C7. For every number \<open>s\<close>, written as a token without separator or closing
  parenthesis, \<^verbatim>\<open>scale(s)\<close> and \<^verbatim>\<open>scale(s,s)\<close> parse to the same result: a missing
  \<open>sy\<close> is \<open>sx\<close>. Where \<open>s\<close> denotes the float \<open>v\<close>, both are the product of the
  scale matrix of \<open>v\<close> and the identity, which for a finite \<open>v\<close> is the uniform scale
  by \<open>v\<close>.
\<close>

theorem scale_one_argument_is_uniform:
  assumes "s \<noteq> []" and "list_all (\<lambda>c. \<not> is_sep c \<and> c \<noteq> CHR '')'') s"
  shows "parse_transform (''scale('' @ s @ '')'') = parse_transform (''scale('' @ s @ '','' @ s @ '')'')
         \<and> (py_float s = Inr v \<longrightarrow>
              parse_transform (''scale('' @ s @ '')'')
                = Inr (matmul (Mat v 0 0 0 v 0 0 0 1) identity3)
              \<and> parse_transform (''scale('' @ s @ '','' @ s @ '')'')
                = Inr (matmul (Mat v 0 0 0 v 0 0 0 1) identity3))
         \<and> (py_float s = Inr (Finite x) \<longrightarrow>
              parse_transform (''scale('' @ s @ '')'')
                = Inr (Mat (Finite x) 0 0 0 (Finite x) 0 0 0 1)
              \<and> parse_transform (''scale('' @ s @ '','' @ s @ '')'')
                = Inr (Mat (Finite x) 0 0 0 (Finite x) 0 0 0 1))"
proof -
  have c: "CHR '')'' \<notin> set s" "CHR '')'' \<notin> set (s @ '','' @ s)"
    using assms(2) by (auto simp: list_all_iff)
  have 1: "findall (''scale('' @ s @ '')'') = [(''scale'', s)]"
    using findall_single [of "''scale''" s] assms(1) c by (simp add: recognized_def)
  have 2: "findall (''scale('' @ s @ '','' @ s @ '')'') = [(''scale'', s @ '','' @ s)]"
    using findall_single [of "''scale''" "s @ '','' @ s"] assms(1) c by (simp add: recognized_def)
  have 3: "parse_transform (''scale('' @ s @ '')'') =
           (case py_float s of Inl e \<Rightarrow> Inl e
            | Inr v \<Rightarrow> Inr (matmul (Mat v 0 0 0 v 0 0 0 1) identity3))"
    unfolding parse_transform_findall 1 transform_loop_step match_matrix_scale1 [OF assms]
    by (simp split: sum.splits)
  have 4: "parse_transform (''scale('' @ s @ '','' @ s @ '')'') =
           (case py_float s of Inl e \<Rightarrow> Inl e
            | Inr v \<Rightarrow> Inr (matmul (Mat v 0 0 0 v 0 0 0 1) identity3))"
    unfolding parse_transform_findall 2 transform_loop_step match_matrix_scale2 [OF assms]
    by (simp split: sum.splits)
  have 5: "matmul (Mat (Finite x) 0 0 0 (Finite x) 0 0 0 1) identity3
           = Mat (Finite x) 0 0 0 (Finite x) 0 0 0 1"
    by (simp add: identity3_def pyfloat_eval)
  show ?thesis unfolding 3 4 by (simp add: 5)
qed

theorem scale_one_argument_is_uniform_witness:
  "''2.5'' \<noteq> [] \<and> list_all (\<lambda>c. \<not> is_sep c \<and> c \<noteq> CHR '')'') ''2.5''
   \<and> py_float ''2.5'' = Inr (Finite 2.5)
   \<and> parse_transform ''scale(2.5)'' = parse_transform ''scale(2.5,2.5)''
   \<and> parse_transform ''scale(2.5)'' = Inr (matmul (Mat (Finite 2.5) 0 0 0 (Finite 2.5) 0 0 0 1) identity3)
   \<and> parse_transform ''scale(2.5)'' = Inr (Mat (Finite 2.5) 0 0 0 (Finite 2.5) 0 0 0 1)"
proof -
  have h1: "list_all (\<lambda>c. \<not> is_sep c \<and> c \<noteq> CHR '')'') ''2.5''" by code_simp
  have h2: "py_float ''2.5'' = Inr (Finite 2.5)" by code_simp
  have ne: "''2.5'' \<noteq> []" by simp
  note t = scale_one_argument_is_uniform [OF ne h1, of "Finite 2.5" "2.5", unfolded append.simps]
  have r1: "parse_transform ''scale(2.5)'' = parse_transform ''scale(2.5,2.5)''"
    using t by blast
  have r2: "parse_transform ''scale(2.5)''
            = Inr (matmul (Mat (Finite 2.5) 0 0 0 (Finite 2.5) 0 0 0 1) identity3)"
    using t h2 by blast
  have r3: "parse_transform ''scale(2.5)'' = Inr (Mat (Finite 2.5) 0 0 0 (Finite 2.5) 0 0 0 1)"
    using t h2 by blast
  show ?thesis
    by (intro conjI ne h1 h2 r1 r2 r3)
qed

text \<open>
  Claim C8 says that a function whose name is not matrix, translate or scale is skipped
  and that parsing does not fail. The pattern is not anchored at a word boundary, so a
  name that ends in a recognized name is not skipped: \<^verbatim>\<open>xscale(2)\<close> parses as
  \<^verbatim>\<open>scale(2)\<close>. And parsing fails where a recognized function beside the skipped one
  has an argument that is not a number.
\<close>

theorem unrecognized_function_counterexample:
  "parse_transform ''xscale(2)'' = Inr (Mat 2 0 0 0 2 0 0 0 1)
   \<and> parse_transform ''xscale(2)'' \<noteq> Inr identity3
   \<and> parse_transform ''rotate(45) scale(x)'' = Inl ValueError"
proof -
  have 1: "parse_transform ''xscale(2)'' = Inr (Mat 2 0 0 0 2 0 0 0 1)" by code_simp
  have 2: "parse_transform ''rotate(45) scale(x)'' = Inl ValueError" by code_simp
  show ?thesis unfolding 1 2 by (simp add: identity3_def pyfloat_eval)
qed

text \<open>
  Claim C8, amended. In a string of function calls, a function whose name has no
  whitespace and no parenthesis, does not end in matrix, translate or scale, and whose
  argument text has no parenthesis, is skipped: the result, success or failure, is that of
  the string of the recognized calls alone, the composition of their matrices when their
  arguments parse. A string of such unrecognized functions only parses to the identity.
\<close>

theorem unrecognized_functions_skipped:
  assumes "list_all well_formed_call cs"
  shows "parse_transform (render cs)
           = parse_transform (render (filter (\<lambda>c. recognized (fst (snd c))) cs))
         \<and> (map match_matrix (map call_of (filter (\<lambda>c. recognized (fst (snd c))) cs)) = map Inr Ms
              \<longrightarrow> parse_transform (render cs) = Inr (mat_prod (rev Ms)))
         \<and> (list_all (\<lambda>c. \<not> recognized (fst (snd c))) cs
              \<longrightarrow> parse_transform (render cs) = Inr identity3)"
proof -
  let ?rs = "filter (\<lambda>c. recognized (fst (snd c))) cs"
  have wf: "list_all well_formed_call ?rs"
    using assms by (simp add: list_all_iff)
  have f: "findall (render cs) = map call_of ?rs"
    using assms by (rule findall_render)
  have "findall (render ?rs) = map call_of ?rs"
    using findall_render [OF wf] by simp
  with f have 1: "parse_transform (render cs) = parse_transform (render ?rs)"
    by (simp add: parse_transform_findall)
  have 2: "parse_transform (render cs) = Inr (mat_prod (rev Ms))"
    if "map match_matrix (map call_of ?rs) = map Inr Ms"
    using that f by (simp add: parse_transform_findall transform_loop_prod)
  have 3: "parse_transform (render cs) = Inr identity3"
    if "list_all (\<lambda>c. \<not> recognized (fst (snd c))) cs"
  proof -
    from that have "?rs = []" by (simp add: list_all_iff filter_empty_conv)
    with f show ?thesis by (simp add: parse_transform_findall)
  qed
  from 1 2 3 show ?thesis by blast
qed

theorem unrecognized_functions_skipped_witness:
  "list_all well_formed_call C8_calls
   \<and> render C8_calls = ''rotate(45) translate(1,2), skewX(30)''
   \<and> render (filter (\<lambda>c. recognized (fst (snd c))) C8_calls) = '' translate(1,2)''
   \<and> map match_matrix (map call_of (filter (\<lambda>c. recognized (fst (snd c))) C8_calls))
       = map Inr [Mat 1 0 1 0 1 2 0 0 1]
   \<and> parse_transform ''rotate(45) translate(1,2), skewX(30)'' = parse_transform '' translate(1,2)''
   \<and> parse_transform ''rotate(45) translate(1,2), skewX(30)'' = Inr (Mat 1 0 1 0 1 2 0 0 1)
   \<and> list_all well_formed_call C8_only_unrecognized
   \<and> list_all (\<lambda>c. \<not> recognized (fst (snd c))) C8_only_unrecognized
   \<and> render C8_only_unrecognized = ''rotate(45) skewX(30)''
   \<and> parse_transform ''rotate(45) skewX(30)'' = Inr identity3"
proof -
  have h1: "list_all well_formed_call C8_calls" by code_simp
  have h2: "render C8_calls = ''rotate(45) translate(1,2), skewX(30)''" by code_simp
  have h3: "render (filter (\<lambda>c. recognized (fst (snd c))) C8_calls) = '' translate(1,2)''"
    by code_simp
  have h4: "map match_matrix (map call_of (filter (\<lambda>c. recognized (fst (snd c))) C8_calls))
       = map Inr [Mat 1 0 1 0 1 2 0 0 1]" by code_simp
  have h5: "list_all well_formed_call C8_only_unrecognized" by code_simp
  have h6: "list_all (\<lambda>c. \<not> recognized (fst (snd c))) C8_only_unrecognized" by code_simp
  have h7: "render C8_only_unrecognized = ''rotate(45) skewX(30)''" by code_simp
  have p: "mat_prod (rev [Mat 1 0 1 0 1 2 0 0 1]) = Mat 1 0 1 0 1 2 0 0 1"
    by (simp add: mat_prod_def identity3_def pyfloat_eval)
  note a = unrecognized_functions_skipped [OF h1, of "[Mat 1 0 1 0 1 2 0 0 1]"]
  note b = unrecognized_functions_skipped [OF h5, of "[]"]
  have r1: "parse_transform ''rotate(45) translate(1,2), skewX(30)'' = parse_transform '' translate(1,2)''"
    using a unfolding h2 h3 by blast
  have r2: "parse_transform ''rotate(45) translate(1,2), skewX(30)'' = Inr (Mat 1 0 1 0 1 2 0 0 1)"
    using a h4 unfolding h2 p by blast
  have r3: "parse_transform ''rotate(45) skewX(30)'' = Inr identity3"
    using b h6 unfolding h7 by blast
  show ?thesis
    by (intro conjI h1 h2 h3 h4 h5 h6 h7 r1 r2 r3)
qed

text \<open>
  Claim C4 says that a recognized function with the wrong number of arguments makes the
  parser fail. It does not: \<^verbatim>\<open>matrix\<close> with three arguments contributes the identity,
  and \<^verbatim>\<open>translate\<close> with three arguments uses the first two.
\<close>

theorem wrong_arity_counterexample:
  "findall ''matrix(1,2,3)'' = [(''matrix'', ''1,2,3'')]
   \<and> parse_transform ''matrix(1,2,3)'' = Inr identity3
   \<and> findall ''translate(1,2,3)'' = [(''translate'', ''1,2,3'')]
   \<and> parse_transform ''translate(1,2,3)'' = Inr (Mat 1 0 1 0 1 2 0 0 1)"
  by code_simp

text \<open>
  Claim C4, amended. Where a recognized function has an argument token that is not a
  number, the parser fails with the \<^verbatim>\<open>ValueError\<close> of \<^verbatim>\<open>float\<close>. The number of
  arguments never makes it fail: where every token is a number the parser returns a
  matrix; \<^verbatim>\<open>matrix\<close> with a number of arguments other than six contributes the
  identity, and \<^verbatim>\<open>translate\<close> and \<^verbatim>\<open>scale\<close> use their first two arguments and ignore
  the others.
\<close>

theorem non_numeric_argument_fails:
  "((f, a) \<in> set (findall s) \<and> tok \<in> set (arg_tokens a) \<and> py_float tok = Inl ValueError
     \<longrightarrow> parse_transform s = Inl ValueError)
   \<and> ((\<forall>(g, b)\<in>set (findall s). \<forall>t\<in>set (arg_tokens b). \<exists>v. py_float t = Inr v)
     \<longrightarrow> (\<exists>M. parse_transform s = Inr M))
   \<and> (length args \<noteq> 6 \<longrightarrow> func_matrix ''matrix'' args = Inr identity3)
   \<and> func_matrix ''translate'' (tx # ty # others) = Inr (Mat 1 0 tx 0 1 ty 0 0 1)
   \<and> func_matrix ''scale'' (sx # sy # others) = Inr (Mat sx 0 0 0 sy 0 0 0 1)"
proof (intro conjI impI)
  assume "(f, a) \<in> set (findall s) \<and> tok \<in> set (arg_tokens a) \<and> py_float tok = Inl ValueError"
  then show "parse_transform s = Inl ValueError"
    unfolding parse_transform_findall using transform_loop_bad by blast
next
  assume "\<forall>(g, b)\<in>set (findall s). \<forall>t\<in>set (arg_tokens b). \<exists>v. py_float t = Inr v"
  then show "\<exists>M. parse_transform s = Inr M"
    unfolding parse_transform_findall by (rule transform_loop_ok)
qed (simp_all add: func_matrix_def)

theorem non_numeric_argument_fails_witness:
  "findall ''scale(2) translate(1,x)'' = [(''scale'', ''2''), (''translate'', ''1,x'')]
   \<and> arg_tokens ''1,x'' = [''1'', ''x''] \<and> py_float ''x'' = Inl ValueError
   \<and> parse_transform ''scale(2) translate(1,x)'' = Inl ValueError
   \<and> findall ''translate(inf,x)'' = [(''translate'', ''inf,x'')]
   \<and> arg_tokens ''inf,x'' = [''inf'', ''x''] \<and> py_float ''inf'' = Inr NonFinite
   \<and> parse_transform ''translate(inf,x)'' = Inl ValueError
   \<and> findall ''matrix(1,2,3) scale(1 2 3)'' = [(''matrix'', ''1,2,3''), (''scale'', ''1 2 3'')]
   \<and> arg_tokens ''1,2,3'' = [''1'', ''2'', ''3''] \<and> arg_tokens ''1 2 3'' = [''1'', ''2'', ''3'']
   \<and> py_float ''1'' = Inr 1 \<and> py_float ''2'' = Inr 2 \<and> py_float ''3'' = Inr 3
   \<and> (\<exists>M. parse_transform ''matrix(1,2,3) scale(1 2 3)'' = Inr M)
   \<and> length [1, 2, 3 :: pyfloat] \<noteq> 6 \<and> func_matrix ''matrix'' [1, 2, 3] = Inr identity3"
proof -
  have f1: "findall ''scale(2) translate(1,x)'' = [(''scale'', ''2''), (''translate'', ''1,x'')]"
    by code_simp
  have f2: "findall ''matrix(1,2,3) scale(1 2 3)'' = [(''matrix'', ''1,2,3''), (''scale'', ''1 2 3'')]"
    by code_simp
  have f3: "findall ''translate(inf,x)'' = [(''translate'', ''inf,x'')]"
    by code_simp
  have t1: "arg_tokens ''1,x'' = [''1'', ''x'']" by code_simp
  have t2: "arg_tokens ''1,2,3'' = [''1'', ''2'', ''3'']" "arg_tokens ''1 2 3'' = [''1'', ''2'', ''3'']"
    by code_simp+
  have t3: "arg_tokens ''inf,x'' = [''inf'', ''x'']" by code_simp
  have p: "py_float ''1'' = Inr 1" "py_float ''2'' = Inr 2" "py_float ''3'' = Inr 3"
    by code_simp+
  have px: "py_float ''x'' = Inl ValueError" by code_simp
  have pi: "py_float ''inf'' = Inr NonFinite" by code_simp
  have h1: "(''translate'', ''1,x'') \<in> set (findall ''scale(2) translate(1,x)'')"
    unfolding f1 by simp
  have h2: "''x'' \<in> set (arg_tokens ''1,x'')" unfolding t1 by simp
  have h3: "(''translate'', ''inf,x'') \<in> set (findall ''translate(inf,x)'')"
    unfolding f3 by simp
  have h4: "''x'' \<in> set (arg_tokens ''inf,x'')" unfolding t3 by simp
  have h5: "\<forall>(g, b)\<in>set (findall ''matrix(1,2,3) scale(1 2 3)'').
         \<forall>t\<in>set (arg_tokens b). \<exists>v. py_float t = Inr v"
    unfolding f2 by (simp add: t2 p)
  note a = non_numeric_argument_fails
      [of "''translate''" "''1,x''" "''scale(2) translate(1,x)''" "''x''" "[1, 2, 3]"]
  note b = non_numeric_argument_fails
      [of _ _ "''matrix(1,2,3) scale(1 2 3)''" _ "[1, 2, 3]"]
  note c = non_numeric_argument_fails
      [of "''translate''" "''inf,x''" "''translate(inf,x)''" "''x''"]
  have r1: "parse_transform ''scale(2) translate(1,x)'' = Inl ValueError"
    using a h1 h2 px by blast
  have r2: "\<exists>M. parse_transform ''matrix(1,2,3) scale(1 2 3)'' = Inr M"
    using b h5 by blast
  have r4: "parse_transform ''translate(inf,x)'' = Inl ValueError"
    using c h3 h4 px by blast
  have l: "length [1, 2, 3 :: pyfloat] \<noteq> 6" by simp
  have r3: "func_matrix ''matrix'' [1, 2, 3] = Inr identity3"
    using a l by blast
  show ?thesis
    by (intro conjI f1 t1 px r1 f3 t3 pi r4 f2 t2 p r2 l r3)
qed

section \<open>Dimensions, cumulative transforms and labels\<close>

lemma py_float_Nil: "py_float [] = Inl ValueError"
  by code_simp

lemma float_list_length: "float_list ts = Inr vs \<Longrightarrow> length vs = length ts"
  by (induction ts arbitrary: vs) (auto split: sum.splits)

lemma float_list_error: "float_list ts = Inl e \<Longrightarrow> e = ValueError"
  by (induction ts) (auto split: sum.splits dest: py_float_error)

lemma float_list_all: "float_list ts = Inr vs \<Longrightarrow> list_all (\<lambda>t. \<exists>v. py_float t = Inr v) ts"
  by (induction ts arbitrary: vs) (auto split: sum.splits)

lemma float_list_ok:
  "list_all (\<lambda>t. \<exists>v. py_float t = Inr v) ts \<Longrightarrow> \<exists>vs. float_list ts = Inr vs \<and> length vs = length ts"
  using float_list_all_ok [of ts] by (simp add: list_all_iff)

lemma sub_non_numeric_number_unit:
  "list_all numeric_char n \<Longrightarrow> list_all (\<lambda>c. \<not> numeric_char c) u \<Longrightarrow> sub_non_numeric (n @ u) = n"
  by (simp add: sub_non_numeric_def list_all_iff filter_empty_conv)

lemma PX_TO_PT_value: "PX_TO_PT = Finite 0.75"
  by (simp add: PX_TO_PT_def)

lemma parse_svg_dimensions_width_height:
  assumes "get_opt r ''width'' = Some w" "get_opt r ''height'' = Some h" "w \<noteq> []" "h \<noteq> []"
  shows "parse_svg_dimensions r =
     (case py_float (filter numeric_char w) of
        Inl e \<Rightarrow> Inl (DimValueError e)
      | Inr x \<Rightarrow> (case py_float (filter numeric_char h) of
                    Inl e \<Rightarrow> Inl (DimValueError e)
                  | Inr y \<Rightarrow> Inr (x * Finite 0.75, y * Finite 0.75)))"
proof -
  have t: "truthy (get_opt r ''width'')" "truthy (get_opt r ''height'')"
    using assms by (simp_all add: truthy_def)
  have g: "get r ''width'' [] = w" "get r ''height'' [] = h"
    using assms by (simp_all add: get_def get_opt_def)
  show ?thesis
    unfolding parse_svg_dimensions_def g sub_non_numeric_def
    using t by (simp add: PX_TO_PT_def split: sum.splits)
qed

lemma parse_svg_dimensions_viewBox:
  assumes "\<not> (truthy (get_opt r ''width'') \<and> truthy (get_opt r ''height''))"
    and "get_opt r ''viewBox'' = Some vb"
  shows "parse_svg_dimensions r =
     (if length (py_split vb) = 4 \<and> list_all (\<lambda>t. \<exists>v. py_float t = Inr v) (py_split vb)
      then (case float_list (py_split vb) of
              Inr vs \<Rightarrow> Inr (vs ! 2 * Finite 0.75, vs ! 3 * Finite 0.75)
            | Inl e \<Rightarrow> Inl (DimValueError e))
      else Inl (DimValueError ValueError))"
proof -
  have nt: "(truthy (get_opt r ''width'') \<and> truthy (get_opt r ''height'')) = False"
    using assms(1) by simp
  have d: "parse_svg_dimensions r =
      (case float_list (take 5 (py_split vb)) of
         Inl e \<Rightarrow> Inl (DimValueError e)
       | Inr vs \<Rightarrow>
           (case vs of
              [_, _, w_vb, h_vb] \<Rightarrow> Inr (w_vb * PX_TO_PT, h_vb * PX_TO_PT)
            | _ \<Rightarrow> Inl (DimValueError ValueError)))"
    unfolding parse_svg_dimensions_def nt by (simp add: assms(2))
  show ?thesis
  proof (cases "length (py_split vb) = 4 \<and> list_all (\<lambda>t. \<exists>v. py_float t = Inr v) (py_split vb)")
    case True
    then obtain vs where vs: "float_list (py_split vb) = Inr vs" "length vs = 4"
      using float_list_ok [of "py_split vb"] by auto
    then obtain a b c e where "vs = [a, b, c, e]"
      by (auto simp: length_Suc_conv numeral_eq_Suc)
    with vs True show ?thesis unfolding d by (simp add: PX_TO_PT_def)
  next
    case False
    then have c: "(length (py_split vb) = 4 \<and> list_all (\<lambda>t. \<exists>v. py_float t = Inr v) (py_split vb)) = False"
      by simp
    show ?thesis
    proof (cases "float_list (take 5 (py_split vb))")
      case (Inl e)
      with float_list_error [OF Inl] show ?thesis unfolding d c by simp
    next
      case (Inr vs)
      have "length vs \<noteq> 4"
      proof
        assume l: "length vs = 4"
        with float_list_length [OF Inr] have "length (py_split vb) = 4" by auto
        then have "take 5 (py_split vb) = py_split vb" by simp
        with float_list_all [OF Inr] \<open>length (py_split vb) = 4\<close> False show False by simp
      qed
      then have "(case vs of
              [_, _, w_vb, h_vb] \<Rightarrow> Inr (w_vb * PX_TO_PT, h_vb * PX_TO_PT)
            | _ \<Rightarrow> Inl (DimValueError ValueError)) = Inl (DimValueError ValueError)"
        by (auto split: list.splits)
      with Inr show ?thesis unfolding d c by simp
    qed
  qed
qed

text \<open>
  Claim C5 says that the unit suffix is stripped from a width and a height and the
  remaining numbers are taken as pixels, and that a \<^verbatim>\<open>viewBox\<close> of four numbers is
  converted where width or height is missing. A \<^verbatim>\<open>viewBox\<close> whose numbers are
  separated by commas makes the resolver fail, and the sign or the exponent of a number
  is lost with the suffix: \<^verbatim>\<open>-100px\<close> gives 75 and \<^verbatim>\<open>1e2px\<close> gives 9.
\<close>

theorem dimension_syntax_counterexample:
  "get_opt (dim_root [(''viewBox'', ''0,0,100,50'')]) ''width'' = None
   \<and> get_opt (dim_root [(''viewBox'', ''0,0,100,50'')]) ''viewBox'' = Some ''0,0,100,50''
   \<and> parse_svg_dimensions (dim_root [(''viewBox'', ''0,0,100,50'')])
       = Inl (DimValueError ValueError)
   \<and> py_float ''-100'' = Inr (Finite (- 100))
   \<and> parse_svg_dimensions (dim_root [(''width'', ''-100px''), (''height'', ''50px'')])
       = Inr (Finite 75, Finite 37.5)
   \<and> py_float ''1e2'' = Inr (Finite 100)
   \<and> parse_svg_dimensions (dim_root [(''width'', ''1e2px''), (''height'', ''50px'')])
       = Inr (Finite 9, Finite 37.5)"
  by code_simp

text \<open>
  Claim C5, amended. Where the root carries a width and a height, each an unsigned
  decimal number (digits and at most one point) followed by a unit suffix without digit
  or point, the Dimension Resolver strips the suffix, takes the numbers as pixels and
  multiplies them by 72/96 = 0.75; width \<^verbatim>\<open>100px\<close> and height \<^verbatim>\<open>50px\<close> give
  (75, 37.5). Where width or height is missing (or empty) and the \<^verbatim>\<open>viewBox\<close> holds
  four numbers separated by whitespace, its third and fourth components are converted by
  the same ratio.
\<close>

theorem dimensions_in_points:
  "(get_opt r ''width'' = Some (n @ u) \<and> get_opt r ''height'' = Some (m @ v)
      \<and> list_all numeric_char n \<and> list_all (\<lambda>c. \<not> numeric_char c) u
      \<and> list_all numeric_char m \<and> list_all (\<lambda>c. \<not> numeric_char c) v
      \<and> py_float n = Inr a \<and> py_float m = Inr b
     \<longrightarrow> parse_svg_dimensions r = Inr (a * Finite 0.75, b * Finite 0.75))
   \<and> (\<not> (truthy (get_opt r ''width'') \<and> truthy (get_opt r ''height''))
      \<and> get_opt r ''viewBox'' = Some vb \<and> py_split vb = [t1, t2, t3, t4]
      \<and> float_list [t1, t2, t3, t4] = Inr [x0, y0, w, h]
     \<longrightarrow> parse_svg_dimensions r = Inr (w * Finite 0.75, h * Finite 0.75))
   \<and> PX_TO_PT = Finite (72 / 96) \<and> PX_TO_PT = Finite 0.75
   \<and> parse_svg_dimensions (dim_root [(''width'', ''100px''), (''height'', ''50px'')])
       = Inr (Finite 75, Finite 37.5)"
proof (intro conjI impI)
  assume a: "get_opt r ''width'' = Some (n @ u) \<and> get_opt r ''height'' = Some (m @ v)
      \<and> list_all numeric_char n \<and> list_all (\<lambda>c. \<not> numeric_char c) u
      \<and> list_all numeric_char m \<and> list_all (\<lambda>c. \<not> numeric_char c) v
      \<and> py_float n = Inr a \<and> py_float m = Inr b"
  then have ne: "n @ u \<noteq> []" "m @ v \<noteq> []" using py_float_Nil by auto
  from a have s: "filter numeric_char (n @ u) = n" "filter numeric_char (m @ v) = m"
    using sub_non_numeric_number_unit by (simp_all add: sub_non_numeric_def)
  from a have p: "py_float n = Inr a" "py_float m = Inr b" by simp_all
  from a have g: "get_opt r ''width'' = Some (n @ u)" "get_opt r ''height'' = Some (m @ v)"
    by simp_all
  show "parse_svg_dimensions r = Inr (a * Finite 0.75, b * Finite 0.75)"
    unfolding parse_svg_dimensions_width_height [OF g ne] s p by simp
next
  assume "\<not> (truthy (get_opt r ''width'') \<and> truthy (get_opt r ''height''))
      \<and> get_opt r ''viewBox'' = Some vb \<and> py_split vb = [t1, t2, t3, t4]
      \<and> float_list [t1, t2, t3, t4] = Inr [x0, y0, w, h]"
  then have nt: "(truthy (get_opt r ''width'') \<and> truthy (get_opt r ''height'')) = False"
    and vb: "get_opt r ''viewBox'' = Some vb"
    and sp: "py_split vb = [t1, t2, t3, t4]"
    and fl: "float_list (take 5 (py_split vb)) = Inr [x0, y0, w, h]"
    by simp_all
  show "parse_svg_dimensions r = Inr (w * Finite 0.75, h * Finite 0.75)"
    unfolding parse_svg_dimensions_def nt vb by (simp add: PX_TO_PT_def fl)
next
  show "parse_svg_dimensions (dim_root [(''width'', ''100px''), (''height'', ''50px'')])
       = Inr (Finite 75, Finite 37.5)"
    by code_simp
qed (simp_all add: PX_TO_PT_def)

theorem dimensions_in_points_witness:
  "get_opt (dim_root [(''width'', ''100px''), (''height'', ''50px'')]) ''width'' = Some (''100'' @ ''px'')
   \<and> get_opt (dim_root [(''width'', ''100px''), (''height'', ''50px'')]) ''height'' = Some (''50'' @ ''px'')
   \<and> list_all numeric_char ''100'' \<and> list_all (\<lambda>c. \<not> numeric_char c) ''px''
   \<and> list_all numeric_char ''50''
   \<and> py_float ''100'' = Inr (Finite 100) \<and> py_float ''50'' = Inr (Finite 50)
   \<and> parse_svg_dimensions (dim_root [(''width'', ''100px''), (''height'', ''50px'')])
       = Inr (Finite 100 * Finite 0.75, Finite 50 * Finite 0.75)
   \<and> \<not> (truthy (get_opt (dim_root [(''height'', ''80''), (''viewBox'', ''0 0 200 120'')]) ''width'')
         \<and> truthy (get_opt (dim_root [(''height'', ''80''), (''viewBox'', ''0 0 200 120'')]) ''height''))
   \<and> get_opt (dim_root [(''height'', ''80''), (''viewBox'', ''0 0 200 120'')]) ''viewBox''
       = Some ''0 0 200 120''
   \<and> py_split ''0 0 200 120'' = [''0'', ''0'', ''200'', ''120'']
   \<and> float_list [''0'', ''0'', ''200'', ''120''] = Inr [Finite 0, Finite 0, Finite 200, Finite 120]
   \<and> parse_svg_dimensions (dim_root [(''height'', ''80''), (''viewBox'', ''0 0 200 120'')])
       = Inr (Finite 200 * Finite 0.75, Finite 120 * Finite 0.75)"
proof -
  let ?r = "dim_root [(''width'', ''100px''), (''height'', ''50px'')]"
  let ?q = "dim_root [(''height'', ''80''), (''viewBox'', ''0 0 200 120'')]"
  have h1: "get_opt ?r ''width'' = Some (''100'' @ ''px'')" by code_simp
  have h2: "get_opt ?r ''height'' = Some (''50'' @ ''px'')" by code_simp
  have h3: "list_all numeric_char ''100''" by code_simp
  have h4: "list_all (\<lambda>c. \<not> numeric_char c) ''px''" by code_simp
  have h5: "list_all numeric_char ''50''" by code_simp
  have h6: "py_float ''100'' = Inr (Finite 100)" by code_simp
  have h7: "py_float ''50'' = Inr (Finite 50)" by code_simp
  have k1: "\<not> (truthy (get_opt ?q ''width'') \<and> truthy (get_opt ?q ''height''))" by code_simp
  have k2: "get_opt ?q ''viewBox'' = Some ''0 0 200 120''" by code_simp
  have k3: "py_split ''0 0 200 120'' = [''0'', ''0'', ''200'', ''120'']" by code_simp
  have k4: "float_list [''0'', ''0'', ''200'', ''120''] = Inr [Finite 0, Finite 0, Finite 200, Finite 120]"
    by code_simp
  have r1: "parse_svg_dimensions ?r = Inr (Finite 100 * Finite 0.75, Finite 50 * Finite 0.75)"
    using dimensions_in_points [of ?r "''100''" "''px''" "''50''" "''px''" "Finite 100" "Finite 50"]
      h1 h2 h3 h4 h5 h6 h7 by blast
  have r2: "parse_svg_dimensions ?q = Inr (Finite 200 * Finite 0.75, Finite 120 * Finite 0.75)"
    using dimensions_in_points [of ?q _ _ _ _ _ _ "''0 0 200 120''" "''0''" "''0''" "''200''" "''120''"
        "Finite 0" "Finite 0" "Finite 200" "Finite 120"]
      k1 k2 k3 k4 by blast
  show ?thesis
    by (intro conjI h1 h2 h3 h4 h5 h6 h7 r1 k1 k2 k3 k4 r2)
qed

text \<open>
  Claim C10 says that the unit is ignored and sign and exponent characters are dropped
  whenever width and height are both present. An attribute that is present and empty
  counts as missing: with an empty width, height \<^verbatim>\<open>5pt\<close> and \<^verbatim>\<open>viewBox\<close>
  \<^verbatim>\<open>0 0 8 4\<close> the size comes from the \<^verbatim>\<open>viewBox\<close>, and nothing is stripped from the
  height.
\<close>

theorem empty_dimension_counterexample:
  "get_opt (dim_root [(''width'', []), (''height'', ''5pt''), (''viewBox'', ''0 0 8 4'')]) ''width''
     = Some []
   \<and> get_opt (dim_root [(''width'', []), (''height'', ''5pt''), (''viewBox'', ''0 0 8 4'')]) ''height''
     = Some ''5pt''
   \<and> parse_svg_dimensions
       (dim_root [(''width'', []), (''height'', ''5pt''), (''viewBox'', ''0 0 8 4'')])
     = Inr (Finite 6, Finite 3)
   \<and> py_float (sub_non_numeric ''5pt'') = Inr (Finite 5)"
  by code_simp

text \<open>
  Claim C10, amended. Where width and height are both present and not empty, every
  character that is not a decimal digit or a point is deleted from each before it is
  parsed: two documents whose attributes keep the same digits and points resolve alike,
  and the result is the parsed remainder times 0.75. So the unit is never honoured
  (\<^verbatim>\<open>100pt\<close> and \<^verbatim>\<open>100mm\<close> are 100 pixels, 75 pt) and sign and exponent characters are
  dropped (\<^verbatim>\<open>-100\<close> resolves as \<^verbatim>\<open>100\<close>, and \<^verbatim>\<open>1e2\<close> as \<^verbatim>\<open>12\<close>).
\<close>

theorem dimension_units_and_signs_ignored:
  "(get_opt r ''width'' = Some w \<and> get_opt r ''height'' = Some h \<and> w \<noteq> [] \<and> h \<noteq> []
      \<and> get_opt r' ''width'' = Some w' \<and> get_opt r' ''height'' = Some h' \<and> w' \<noteq> [] \<and> h' \<noteq> []
      \<and> filter numeric_char w = filter numeric_char w'
      \<and> filter numeric_char h = filter numeric_char h'
     \<longrightarrow> parse_svg_dimensions r = parse_svg_dimensions r')
   \<and> (get_opt r ''width'' = Some w \<and> get_opt r ''height'' = Some h \<and> w \<noteq> [] \<and> h \<noteq> []
      \<and> py_float (filter numeric_char w) = Inr x \<and> py_float (filter numeric_char h) = Inr y
     \<longrightarrow> parse_svg_dimensions r = Inr (x * Finite 0.75, y * Finite 0.75))
   \<and> parse_svg_dimensions (dim_root [(''width'', ''100pt''), (''height'', ''50pt'')])
       = Inr (Finite 75, Finite 37.5)
   \<and> parse_svg_dimensions (dim_root [(''width'', ''100mm''), (''height'', ''50mm'')])
       = Inr (Finite 75, Finite 37.5)
   \<and> parse_svg_dimensions (dim_root [(''width'', ''-100''), (''height'', ''50'')])
       = Inr (Finite 75, Finite 37.5)
   \<and> parse_svg_dimensions (dim_root [(''width'', ''100''), (''height'', ''50'')])
       = Inr (Finite 75, Finite 37.5)
   \<and> parse_svg_dimensions (dim_root [(''width'', ''1e2''), (''height'', ''50'')])
       = Inr (Finite 9, Finite 37.5)"
proof (intro conjI impI)
  assume "get_opt r ''width'' = Some w \<and> get_opt r ''height'' = Some h \<and> w \<noteq> [] \<and> h \<noteq> []
      \<and> get_opt r' ''width'' = Some w' \<and> get_opt r' ''height'' = Some h' \<and> w' \<noteq> [] \<and> h' \<noteq> []
      \<and> filter numeric_char w = filter numeric_char w'
      \<and> filter numeric_char h = filter numeric_char h'"
  then have g: "get_opt r ''width'' = Some w" "get_opt r ''height'' = Some h"
    and g': "get_opt r' ''width'' = Some w'" "get_opt r' ''height'' = Some h'"
    and ne: "w \<noteq> []" "h \<noteq> []" and ne': "w' \<noteq> []" "h' \<noteq> []"
    and e: "filter numeric_char w = filter numeric_char w'"
      "filter numeric_char h = filter numeric_char h'"
    by simp_all
  show "parse_svg_dimensions r = parse_svg_dimensions r'"
    unfolding parse_svg_dimensions_width_height [OF g ne]
      parse_svg_dimensions_width_height [OF g' ne'] e ..
next
  assume "get_opt r ''width'' = Some w \<and> get_opt r ''height'' = Some h \<and> w \<noteq> [] \<and> h \<noteq> []
      \<and> py_float (filter numeric_char w) = Inr x \<and> py_float (filter numeric_char h) = Inr y"
  then show "parse_svg_dimensions r = Inr (x * Finite 0.75, y * Finite 0.75)"
    using parse_svg_dimensions_width_height [of r w h] by simp
qed code_simp+

theorem dimension_units_and_signs_ignored_witness:
  "get_opt (dim_root [(''width'', ''-100pt''), (''height'', ''50mm'')]) ''width'' = Some ''-100pt''
   \<and> get_opt (dim_root [(''width'', ''-100pt''), (''height'', ''50mm'')]) ''height'' = Some ''50mm''
   \<and> get_opt (dim_root [(''width'', ''100''), (''height'', ''50'')]) ''width'' = Some ''100''
   \<and> get_opt (dim_root [(''width'', ''100''), (''height'', ''50'')]) ''height'' = Some ''50''
   \<and> filter numeric_char ''-100pt'' = filter numeric_char ''100''
   \<and> filter numeric_char ''50mm'' = filter numeric_char ''50''
   \<and> py_float (filter numeric_char ''-100pt'') = Inr (Finite 100)
   \<and> py_float (filter numeric_char ''50mm'') = Inr (Finite 50)
   \<and> parse_svg_dimensions (dim_root [(''width'', ''-100pt''), (''height'', ''50mm'')])
       = parse_svg_dimensions (dim_root [(''width'', ''100''), (''height'', ''50'')])
   \<and> parse_svg_dimensions (dim_root [(''width'', ''-100pt''), (''height'', ''50mm'')])
       = Inr (Finite 100 * Finite 0.75, Finite 50 * Finite 0.75)"
proof -
  let ?r = "dim_root [(''width'', ''-100pt''), (''height'', ''50mm'')]"
  let ?q = "dim_root [(''width'', ''100''), (''height'', ''50'')]"
  have g: "get_opt ?r ''width'' = Some ''-100pt''" "get_opt ?r ''height'' = Some ''50mm''"
    "get_opt ?q ''width'' = Some ''100''" "get_opt ?q ''height'' = Some ''50''"
    by code_simp+
  have f: "filter numeric_char ''-100pt'' = filter numeric_char ''100''"
    "filter numeric_char ''50mm'' = filter numeric_char ''50''"
    by code_simp+
  have p: "py_float (filter numeric_char ''-100pt'') = Inr (Finite 100)"
    "py_float (filter numeric_char ''50mm'') = Inr (Finite 50)"
    by code_simp+
  have ne: "''-100pt'' \<noteq> []" "''50mm'' \<noteq> []" "''100'' \<noteq> []" "''50'' \<noteq> []"
    by simp_all
  note t = dimension_units_and_signs_ignored
    [of ?r "''-100pt''" "''50mm''" ?q "''100''" "''50''" "Finite 100" "Finite 50"]
  have r1: "parse_svg_dimensions ?r = parse_svg_dimensions ?q"
    using t g f ne by blast
  have r2: "parse_svg_dimensions ?r = Inr (Finite 100 * Finite 0.75, Finite 50 * Finite 0.75)"
    using t g p ne by blast
  show ?thesis
    by (intro conjI g f p r1 r2)
qed

text \<open>
  Claim C6 says that the Dimension Resolver fails only where the document has neither the
  width and height pair nor a \<^verbatim>\<open>viewBox\<close>. It also fails where both attributes are
  present and one has no number left after stripping, and where the \<^verbatim>\<open>viewBox\<close> is not
  four numbers separated by whitespace.
\<close>

theorem dimension_failure_counterexample:
  "get_opt (dim_root [(''width'', ''auto''), (''height'', ''10'')]) ''width'' = Some ''auto''
   \<and> get_opt (dim_root [(''width'', ''auto''), (''height'', ''10'')]) ''height'' = Some ''10''
   \<and> parse_svg_dimensions (dim_root [(''width'', ''auto''), (''height'', ''10'')])
       = Inl (DimValueError ValueError)
   \<and> get_opt (dim_root [(''viewBox'', ''0,0,100,50'')]) ''viewBox'' = Some ''0,0,100,50''
   \<and> parse_svg_dimensions (dim_root [(''viewBox'', ''0,0,100,50'')])
       = Inl (DimValueError ValueError)"
  by code_simp

lemma process_svg_dimension_error:
  "parse_svg_dimensions r = Inl e \<Longrightarrow> process_svg r = Inl (DimensionError e)"
  by (simp add: process_svg_def)

lemma parse_svg_dimensions_missing_iff:
  "parse_svg_dimensions r = Inl MissingDimensions \<longleftrightarrow>
   \<not> (truthy (get_opt r ''width'') \<and> truthy (get_opt r ''height'')) \<and> get_opt r ''viewBox'' = None"
  by (auto simp: parse_svg_dimensions_def split: sum.splits option.splits list.splits)

lemma parse_svg_dimensions_value_error_iff:
  "parse_svg_dimensions r = Inl (DimValueError ValueError) \<longleftrightarrow>
     (truthy (get_opt r ''width'') \<and> truthy (get_opt r ''height'')
        \<and> (py_float (sub_non_numeric (get r ''width'' [])) = Inl ValueError
            \<or> py_float (sub_non_numeric (get r ''height'' [])) = Inl ValueError))
     \<or> (\<not> (truthy (get_opt r ''width'') \<and> truthy (get_opt r ''height''))
         \<and> (\<exists>vb. get_opt r ''viewBox'' = Some vb
              \<and> \<not> (length (py_split vb) = 4
                    \<and> list_all (\<lambda>t. \<exists>v. py_float t = Inr v) (py_split vb))))"
proof (cases "truthy (get_opt r ''width'') \<and> truthy (get_opt r ''height'')")
  case True
  then show ?thesis
    by (auto simp: parse_svg_dimensions_def split: sum.splits dest: py_float_error)
next
  case False
  show ?thesis
  proof (cases "get_opt r ''viewBox''")
    case None
    with False show ?thesis
      by (auto simp: parse_svg_dimensions_def)
  next
    case (Some vb)
    show ?thesis
    proof (cases "length (py_split vb) = 4
        \<and> list_all (\<lambda>t. \<exists>v. py_float t = Inr v) (py_split vb)")
      case True
      then obtain vs where "float_list (py_split vb) = Inr vs"
        using float_list_ok [of "py_split vb"] by auto
      with True False Some show ?thesis
        unfolding parse_svg_dimensions_viewBox [OF False Some] by auto
    next
      case c: False
      with False Some show ?thesis
        unfolding parse_svg_dimensions_viewBox [OF False Some] by auto
    qed
  qed
qed

lemma parse_svg_dimensions_errors:
  "parse_svg_dimensions r = Inl e \<Longrightarrow> e = MissingDimensions \<or> e = DimValueError ValueError"
  by (auto simp: parse_svg_dimensions_def
      split: sum.splits option.splits list.splits if_splits
      dest: py_float_error float_list_error)

text \<open>
  Claim C6, amended. The Dimension Resolver fails with \<open>MissingDimensions\<close> exactly
  where the document has neither a non-empty width and height pair nor a
  \<^verbatim>\<open>viewBox\<close>. It fails with a \<^verbatim>\<open>ValueError\<close> exactly where width and height are both
  present and not empty and one of them is not a number after stripping, or where one of
  them is missing or empty and the document has a \<^verbatim>\<open>viewBox\<close> that is not four tokens
  separated by whitespace, each a number that \<^verbatim>\<open>float\<close> accepts. It fails in no other
  way, and every failure ends the run with no result.
\<close>

theorem missing_dimensions_abort:
  "(parse_svg_dimensions r = Inl MissingDimensions \<longleftrightarrow>
      \<not> (truthy (get_opt r ''width'') \<and> truthy (get_opt r ''height''))
      \<and> get_opt r ''viewBox'' = None)
   \<and> (parse_svg_dimensions r = Inl (DimValueError ValueError) \<longleftrightarrow>
       (truthy (get_opt r ''width'') \<and> truthy (get_opt r ''height'')
          \<and> (py_float (sub_non_numeric (get r ''width'' [])) = Inl ValueError
              \<or> py_float (sub_non_numeric (get r ''height'' [])) = Inl ValueError))
       \<or> (\<not> (truthy (get_opt r ''width'') \<and> truthy (get_opt r ''height''))
           \<and> (\<exists>vb. get_opt r ''viewBox'' = Some vb
                \<and> \<not> (length (py_split vb) = 4
                      \<and> list_all (\<lambda>t. \<exists>v. py_float t = Inr v) (py_split vb)))))
   \<and> (parse_svg_dimensions r = Inl e \<longrightarrow>
        (e = MissingDimensions \<or> e = DimValueError ValueError)
        \<and> process_svg r = Inl (DimensionError e))"
  using parse_svg_dimensions_missing_iff [of r] process_svg_dimension_error [of r e]
    parse_svg_dimensions_value_error_iff [of r] parse_svg_dimensions_errors [of r e]
  by blast

theorem missing_dimensions_abort_witness:
  "\<not> truthy (get_opt (dim_root [(''width'', ''100'')]) ''height'')
   \<and> get_opt (dim_root [(''width'', ''100'')]) ''viewBox'' = None
   \<and> parse_svg_dimensions (dim_root [(''width'', ''100'')]) = Inl MissingDimensions
   \<and> process_svg (dim_root [(''width'', ''100'')]) = Inl (DimensionError MissingDimensions)
   \<and> truthy (get_opt (dim_root [(''width'', ''auto''), (''height'', ''10'')]) ''width'')
   \<and> truthy (get_opt (dim_root [(''width'', ''auto''), (''height'', ''10'')]) ''height'')
   \<and> py_float (sub_non_numeric (get (dim_root [(''width'', ''auto''), (''height'', ''10'')]) ''width'' []))
       = Inl ValueError
   \<and> parse_svg_dimensions (dim_root [(''width'', ''auto''), (''height'', ''10'')])
       = Inl (DimValueError ValueError)
   \<and> process_svg (dim_root [(''width'', ''auto''), (''height'', ''10'')])
       = Inl (DimensionError (DimValueError ValueError))
   \<and> get_opt (dim_root [(''viewBox'', ''inf 0 100'')]) ''viewBox'' = Some ''inf 0 100''
   \<and> length (py_split ''inf 0 100'') = 3
   \<and> parse_svg_dimensions (dim_root [(''viewBox'', ''inf 0 100'')])
       = Inl (DimValueError ValueError)
   \<and> parse_svg_dimensions (dim_root [(''viewBox'', ''0 0 inf 5'')])
       = Inr (NonFinite, Finite 3.75)"
proof -
  let ?r = "dim_root [(''width'', ''100'')]"
  let ?q = "dim_root [(''width'', ''auto''), (''height'', ''10'')]"
  let ?v = "dim_root [(''viewBox'', ''inf 0 100'')]"
  have h1: "\<not> truthy (get_opt ?r ''height'')" by code_simp
  have h2: "get_opt ?r ''viewBox'' = None" by code_simp
  have k2: "truthy (get_opt ?q ''width'')" by code_simp
  have k3: "truthy (get_opt ?q ''height'')" by code_simp
  have k4: "py_float (sub_non_numeric (get ?q ''width'' [])) = Inl ValueError" by code_simp
  have v1: "\<not> truthy (get_opt ?v ''width'')" by code_simp
  have v2: "get_opt ?v ''viewBox'' = Some ''inf 0 100''" by code_simp
  have v3: "length (py_split ''inf 0 100'') = 3" by code_simp
  have v4: "length (py_split ''inf 0 100'') \<noteq> 4" unfolding v3 by simp
  have v5: "parse_svg_dimensions (dim_root [(''viewBox'', ''0 0 inf 5'')])
       = Inr (NonFinite, Finite 3.75)" by code_simp
  note a = missing_dimensions_abort [of ?r MissingDimensions]
  note b = missing_dimensions_abort [of ?q "DimValueError ValueError"]
  note c = missing_dimensions_abort [of ?v]
  have r1: "parse_svg_dimensions ?r = Inl MissingDimensions"
    using a h1 h2 by blast
  have r2: "process_svg ?r = Inl (DimensionError MissingDimensions)"
    using a r1 by blast
  have r3: "parse_svg_dimensions ?q = Inl (DimValueError ValueError)"
    using b k2 k3 k4 by blast
  have r4: "process_svg ?q = Inl (DimensionError (DimValueError ValueError))"
    using b r3 by blast
  have r5: "parse_svg_dimensions ?v = Inl (DimValueError ValueError)"
    using c v1 v2 v4 by blast
  show ?thesis
    by (intro conjI h1 h2 r1 r2 k2 k3 k4 r3 r4 v2 v3 r5 v5)
qed

lemma ancestors_loop_foldr:
  "list_all (\<lambda>a. tag a \<noteq> svg_svg) anc \<Longrightarrow>
   map (\<lambda>a. parse_transform (get a ''transform'' [])) anc = map Inr As \<Longrightarrow>
   (outer = [] \<or> tag (hd outer) = svg_svg) \<Longrightarrow>
   ancestors_loop (anc @ outer) T = Inr (foldr matmul (rev As) T)"
proof (induction anc arbitrary: As T)
  case Nil
  then show ?case
    by (cases outer) simp_all
next
  case (Cons a anc)
  then obtain A As' where As: "As = A # As'"
    and A: "parse_transform (get a ''transform'' []) = Inr A"
    and rest: "map (\<lambda>a. parse_transform (get a ''transform'' [])) anc = map Inr As'"
    by (cases As) auto
  from Cons.prems(1) have t: "tag a \<noteq> svg_svg" and t': "list_all (\<lambda>a. tag a \<noteq> svg_svg) anc"
    by simp_all
  show ?case
    using Cons.IH [OF t' rest Cons.prems(3), of "matmul A T"] t A
    by (simp add: As)
qed

lemma cumulative_transform_product:
  assumes "list_all (\<lambda>a. tag a \<noteq> svg_svg) anc"
    and "map (\<lambda>a. parse_transform (get a ''transform'' [])) anc = map Inr As"
    and "outer = [] \<or> tag (hd outer) = svg_svg"
    and "parse_transform (get e ''transform'' []) = Inr E"
  shows "get_cumulative_transform (anc @ outer) e = Inr (matmul (mat_prod (rev As)) E)"
  using ancestors_loop_foldr [OF assms(1,2,3), of identity3] assms(4)
  by (simp add: get_cumulative_transform_def mat_prod_def)

lemma mat_prod_translations:
  "mat_prod (replicate n (Mat 1 0 1 0 1 0 0 0 1)) = Mat 1 0 (Finite (real n)) 0 1 0 0 0 1"
  by (induction n) (simp_all add: mat_prod_Nil mat_prod_Cons identity3_def pyfloat_eval)

lemma nested_translations:
  assumes "list_all (\<lambda>a. tag a \<noteq> svg_svg \<and> get a ''transform'' [] = ''translate(1,0)'') anc"
    and "outer = [] \<or> tag (hd outer) = svg_svg"
    and "get e ''transform'' [] = []"
  shows "\<exists>T. get_cumulative_transform (anc @ outer) e = Inr T
           \<and> matvec T (0, 0, 1) = (Finite (real (length anc)), 0, 1)"
proof -
  have p: "parse_transform ''translate(1,0)'' = Inr (Mat 1 0 1 0 1 0 0 0 1)" by code_simp
  have 1: "list_all (\<lambda>a. tag a \<noteq> svg_svg) anc"
    using assms(1) by (simp add: list_all_iff)
  have 2: "map (\<lambda>a. parse_transform (get a ''transform'' [])) anc
           = map Inr (replicate (length anc) (Mat 1 0 1 0 1 0 0 0 1))"
    using assms(1) by (induction anc) (simp_all add: p)
  have 3: "parse_transform (get e ''transform'' []) = Inr identity3"
    using assms(3) by (simp add: parse_transform_def)
  have "get_cumulative_transform (anc @ outer) e
        = Inr (Mat 1 0 (Finite (real (length anc))) 0 1 0 0 0 1)"
    using cumulative_transform_product [OF 1 2 assms(2) 3]
    unfolding rev_replicate mat_prod_translations
    by (simp add: identity3_def pyfloat_eval)
  then show ?thesis by (simp add: pyfloat_eval)
qed

text \<open>
  Claim C1 says that the cumulative transform is the product of the parsed transforms of
  all ancestors below the document root, the outermost first, and of the element's own.
  The walk stops at the first ancestor with the tag \<^verbatim>\<open>svg\<close>, which the comment in the
  source calls the root. For a text element inside a nested \<^verbatim>\<open>svg\<close> element inside a
  group with \<^verbatim>\<open>translate(1,0)\<close>, the code returns the identity, where the product
  is the translation. (Where the root is the only ancestor with that tag, the product is
  what the code returns: \<open>cumulative_transform_product\<close>, \<open>nested_translations\<close>.)
\<close>

theorem nested_svg_stops_the_walk:
  "text_nodes [] C1_doc = [([C1_inner, C1_group, C1_doc], C1_text)]
   \<and> tag C1_doc = svg_svg \<and> tag C1_inner = svg_svg \<and> tag C1_group \<noteq> svg_svg
   \<and> parse_transform (get C1_group ''transform'' []) = Inr (Mat 1 0 1 0 1 0 0 0 1)
   \<and> parse_transform (get C1_inner ''transform'' []) = Inr identity3
   \<and> parse_transform (get C1_text ''transform'' []) = Inr identity3
   \<and> get_cumulative_transform [C1_inner, C1_group, C1_doc] C1_text = Inr identity3
   \<and> mat_prod [Mat 1 0 1 0 1 0 0 0 1, identity3, identity3] = Mat 1 0 1 0 1 0 0 0 1
   \<and> Mat 1 0 1 0 1 0 0 0 1 \<noteq> identity3"
proof -
  have 1: "text_nodes [] C1_doc = [([C1_inner, C1_group, C1_doc], C1_text)]" by code_simp
  have 2: "tag C1_doc = svg_svg" "tag C1_inner = svg_svg" "tag C1_group \<noteq> svg_svg" by code_simp+
  have 3: "parse_transform (get C1_group ''transform'' []) = Inr (Mat 1 0 1 0 1 0 0 0 1)"
    by code_simp
  have 4: "parse_transform (get C1_inner ''transform'' []) = Inr identity3" by code_simp
  have 5: "parse_transform (get C1_text ''transform'' []) = Inr identity3" by code_simp
  have 6: "get_cumulative_transform [C1_inner, C1_group, C1_doc] C1_text = Inr identity3"
    by code_simp
  have 7: "mat_prod [Mat 1 0 1 0 1 0 0 0 1, identity3, identity3] = Mat 1 0 1 0 1 0 0 0 1"
    by (simp add: mat_prod_def identity3_def pyfloat_eval)
  have 8: "Mat 1 0 1 0 1 0 0 0 1 \<noteq> identity3" by (simp add: identity3_def pyfloat_eval)
  show ?thesis by (intro conjI 1 2 3 4 5 6 7 8)
qed

lemma bottom_entry_matmul:
  assumes "bottom_entry 0 a00 a10 a20" "bottom_entry 0 a01 a11 a21" "bottom_entry 1 a02 a12 a22"
    and "bottom_entry k u v w"
  shows "bottom_entry k (a00 * u + a01 * v + a02 * w) (a10 * u + a11 * v + a12 * w)
           (a20 * u + a21 * v + a22 * w)"
  using assms
  by (cases u; cases v; cases k)
    (auto simp: bottom_entry_def pyfloat_arith zero_pyfloat_def one_pyfloat_def)

lemma affine_identity3: "affine identity3"
  by (simp add: affine_def bottom_entry_def identity3_def)

lemma affine_matmul: "affine A \<Longrightarrow> affine B \<Longrightarrow> affine (matmul A B)"
  by (cases A; cases B) (simp add: affine_def bottom_entry_matmul)

lemma affine_func_matrix: "func_matrix f args = Inr M \<Longrightarrow> affine M"
  by (auto simp: func_matrix_def affine_def bottom_entry_def identity3_def
      split: if_splits list.splits)

lemma affine_transform_loop:
  "affine T \<Longrightarrow> transform_loop ms T = Inr M \<Longrightarrow> affine M"
proof (induction ms arbitrary: T)
  case Nil
  then show ?case by simp
next
  case (Cons m ms)
  obtain f a where m: "m = (f, a)" by (cases m)
  from Cons.prems(2) obtain args N where
    "func_matrix f args = Inr N" "transform_loop ms (matmul N T) = Inr M"
    by (auto simp: m split: sum.splits)
  then show ?case
    using Cons.IH [of "matmul N T"] Cons.prems(1) affine_func_matrix affine_matmul by blast
qed

lemma affine_parse_transform: "parse_transform s = Inr M \<Longrightarrow> affine M"
  using affine_transform_loop [OF affine_identity3] by (simp add: parse_transform_findall)

lemma affine_ancestors_loop:
  "affine T \<Longrightarrow> ancestors_loop anc T = Inr M \<Longrightarrow> affine M"
proof (induction anc arbitrary: T)
  case Nil
  then show ?case by simp
next
  case (Cons a anc)
  show ?case
  proof (cases "tag a = svg_svg")
    case True
    with Cons.prems show ?thesis by simp
  next
    case False
    with Cons.prems(2) obtain A where
      "parse_transform (get a ''transform'' []) = Inr A" "ancestors_loop anc (matmul A T) = Inr M"
      by (auto split: sum.splits)
    then show ?thesis
      using Cons.IH [of "matmul A T"] Cons.prems(1) affine_parse_transform affine_matmul by blast
  qed
qed

lemma affine_cumulative_transform:
  assumes "get_cumulative_transform anc e = Inr M"
  shows "affine M"
proof -
  from assms obtain T E where
    "ancestors_loop anc identity3 = Inr T" "parse_transform (get e ''transform'' []) = Inr E"
    "M = matmul T E"
    by (auto simp: get_cumulative_transform_def split: sum.splits)
  then show ?thesis
    using affine_ancestors_loop [OF affine_identity3] affine_parse_transform affine_matmul by blast
qed

lemma affine_cases:
  assumes "affine M"
  obtains a b c d e f g h i where "M = Mat a c e b d f g h i"
    "g = 0 \<or> g = NonFinite \<and> (a = NonFinite \<or> b = NonFinite)"
    "h = 0 \<or> h = NonFinite \<and> (c = NonFinite \<or> d = NonFinite)"
    "i = 1 \<or> i = NonFinite \<and> (e = NonFinite \<or> f = NonFinite)"
  using assms by (cases M) (simp add: affine_def bottom_entry_def)

lemma process_text_node_SomeD:
  assumes "process_text_node anc node = Inr (Some L)"
  obtains T x y s where
    "get_cumulative_transform anc node = Inr T"
    "py_float (get node ''x'' ''0'') = Inr x"
    "py_float (get node ''y'' ''0'') = Inr y"
    "font_size_of (get node ''style'' []) = Inr s"
    "strip (itertext node) \<noteq> []"
    "L = make_label T x y s (strip (itertext node)) (text_anchor_of node)"
  using assms
  by (auto simp: process_text_node_def Let_def split: sum.splits if_splits)

lemma make_label_Mat:
  "make_label (Mat a c e b d f g h i) x y s txt anc =
     \<lparr>x_pt = (a * x + c * y + e) * Finite (72 / 96),
      y_pt = (b * x + d * y + f) * Finite (72 / 96)
             - Finite 0.8 * (s * py_sqrt (b\<^sup>2 + d\<^sup>2) * Finite (72 / 96)),
      font_size_pt = s * py_sqrt (b\<^sup>2 + d\<^sup>2) * Finite (72 / 96), content = txt, anchor = anc\<rparr>"
  by (simp add: make_label_def PX_TO_PT_def Let_def)

lemma py_sqrt_squares:
  "py_sqrt ((Finite b)\<^sup>2 + (Finite d)\<^sup>2) = Finite (sqrt (b\<^sup>2 + d\<^sup>2))"
  by (simp add: py_sqrt_def power2_eq_square pyfloat_arith not_less)

lemma C3_process_text_node:
  "process_text_node [C3_group, C3_doc] C3_text =
     Inr (Some \<lparr>x_pt = Finite 11.25, y_pt = Finite 6.75, font_size_pt = Finite 15,
                content = ''Label'', anchor = ''middle''\<rparr>)"
proof -
  have 1: "py_float (get C3_text ''x'' ''0'') = Inr (Finite 10)" by code_simp
  have 2: "py_float (get C3_text ''y'' ''0'') = Inr (Finite 20)" by code_simp
  have 3: "font_size_of (get C3_text ''style'' []) = Inr (Finite 20)" by code_simp
  have 4: "text_anchor_of C3_text = ''middle''" by code_simp
  have 5: "strip (itertext C3_text) = ''Label''" by code_simp
  have 6: "get_cumulative_transform [C3_group, C3_doc] C3_text
      = Inr (Mat (Finite 1) (Finite 0) (Finite 5) (Finite 0) (Finite 1) (Finite 5) 0 0 1)"
    by code_simp
  have 7: "make_label (Mat (Finite 1) (Finite 0) (Finite 5) (Finite 0) (Finite 1) (Finite 5) 0 0 1)
       (Finite 10) (Finite 20) (Finite 20) ''Label'' ''middle'' =
      \<lparr>x_pt = Finite 11.25, y_pt = Finite 6.75, font_size_pt = Finite 15,
       content = ''Label'', anchor = ''middle''\<rparr>"
    unfolding make_label_Mat py_sqrt_squares by (simp add: pyfloat_arith)
  show ?thesis
    unfolding process_text_node_def 1 2 3 4 5 6 by (simp add: 7)
qed

lemma C3_general:
  assumes "process_text_node anc node = Inr (Some L)"
  shows "\<exists>a b c d e f g h i x y s.
          get_cumulative_transform anc node = Inr (Mat a c e b d f g h i)
        \<and> (g = 0 \<or> g = NonFinite \<and> (a = NonFinite \<or> b = NonFinite))
        \<and> (h = 0 \<or> h = NonFinite \<and> (c = NonFinite \<or> d = NonFinite))
        \<and> (i = 1 \<or> i = NonFinite \<and> (e = NonFinite \<or> f = NonFinite))
        \<and> py_float (get node ''x'' ''0'') = Inr x
        \<and> py_float (get node ''y'' ''0'') = Inr y
        \<and> font_size_of (get node ''style'' []) = Inr s
        \<and> font_size_pt L = s * py_sqrt (b\<^sup>2 + d\<^sup>2) * Finite (72 / 96)
        \<and> x_pt L = (a * x + c * y + e) * Finite (72 / 96)
        \<and> y_pt L = (b * x + d * y + f) * Finite (72 / 96) - Finite 0.8 * font_size_pt L
        \<and> content L = strip (itertext node)
        \<and> anchor L = text_anchor_of node"
proof -
  from assms obtain T x y s where
    T: "get_cumulative_transform anc node = Inr T" and
    xy: "py_float (get node ''x'' ''0'') = Inr x" "py_float (get node ''y'' ''0'') = Inr y" and
    s: "font_size_of (get node ''style'' []) = Inr s" and
    L: "L = make_label T x y s (strip (itertext node)) (text_anchor_of node)"
    by (rule process_text_node_SomeD)
  from affine_cumulative_transform [OF T] obtain a b c d e f g h i where
    M: "T = Mat a c e b d f g h i"
    and r: "g = 0 \<or> g = NonFinite \<and> (a = NonFinite \<or> b = NonFinite)"
      "h = 0 \<or> h = NonFinite \<and> (c = NonFinite \<or> d = NonFinite)"
      "i = 1 \<or> i = NonFinite \<and> (e = NonFinite \<or> f = NonFinite)"
    by (rule affine_cases)
  have 1: "font_size_pt L = s * py_sqrt (b\<^sup>2 + d\<^sup>2) * Finite (72 / 96)"
    and 2: "x_pt L = (a * x + c * y + e) * Finite (72 / 96)"
    and 3: "y_pt L = (b * x + d * y + f) * Finite (72 / 96) - Finite 0.8 * font_size_pt L"
    and 4: "content L = strip (itertext node)"
    and 5: "anchor L = text_anchor_of node"
    unfolding L M make_label_Mat by simp_all
  from T [unfolded M] r xy s 1 2 3 4 5 show ?thesis by blast
qed

lemma C3_finite:
  assumes "process_text_node anc node = Inr (Some L)"
    and "get_cumulative_transform anc node
         = Inr (Mat (Finite a) (Finite c) (Finite e) (Finite b) (Finite d) (Finite f) g h i)"
    and "py_float (get node ''x'' ''0'') = Inr (Finite x)"
    and "py_float (get node ''y'' ''0'') = Inr (Finite y)"
    and "font_size_of (get node ''style'' []) = Inr (Finite s)"
  shows "g = 0 \<and> h = 0 \<and> i = 1
       \<and> font_size_pt L = Finite (s * sqrt (b\<^sup>2 + d\<^sup>2) * (72 / 96))
       \<and> x_pt L = Finite ((a * x + c * y + e) * (72 / 96))
       \<and> y_pt L = Finite ((b * x + d * y + f) * (72 / 96)
                           - 0.8 * (s * sqrt (b\<^sup>2 + d\<^sup>2) * (72 / 96)))"
proof -
  from assms(1) obtain T x' y' s' where
    T: "get_cumulative_transform anc node = Inr T" and
    xy: "py_float (get node ''x'' ''0'') = Inr x'" "py_float (get node ''y'' ''0'') = Inr y'" and
    s: "font_size_of (get node ''style'' []) = Inr s'" and
    L: "L = make_label T x' y' s' (strip (itertext node)) (text_anchor_of node)"
    by (rule process_text_node_SomeD)
  from T xy s assms(2-5) have
    e: "T = Mat (Finite a) (Finite c) (Finite e) (Finite b) (Finite d) (Finite f) g h i"
      "x' = Finite x" "y' = Finite y" "s' = Finite s"
    by simp_all
  from affine_cumulative_transform [OF T] have r: "g = 0" "h = 0" "i = 1"
    unfolding e by (simp_all add: affine_def bottom_entry_def)
  show ?thesis
    unfolding L e make_label_Mat py_sqrt_squares
    by (simp add: r pyfloat_arith)
qed

lemma C3_text_nodes: "text_nodes [] C3_doc = [([C3_group, C3_doc], C3_text)]"
  by code_simp

lemma C3_dims: "parse_svg_dimensions C3_doc = Inr (Finite 75, Finite 37.5)"
  by code_simp

lemma C3_clean: "clean_svg [ident C3_text] C3_doc = Inr (prune [ident C3_text] C3_doc)"
  by code_simp

lemma C3_text_loop:
  "text_loop [([C3_group, C3_doc], C3_text)] [] [] =
     Inr ([\<lparr>x_pt = Finite 11.25, y_pt = Finite 6.75, font_size_pt = Finite 15,
            content = ''Label'', anchor = ''middle''\<rparr>], [ident C3_text])"
  unfolding text_loop.simps C3_process_text_node by simp

lemma C3_process_svg:
  "process_svg C3_doc =
     Inr \<lparr>width_pt = Finite 75, height_pt = Finite 37.5,
          labels = [\<lparr>x_pt = Finite 11.25, y_pt = Finite 6.75, font_size_pt = Finite 15,
                     content = ''Label'', anchor = ''middle''\<rparr>],
          removed = [ident C3_text], clean_tree = prune [ident C3_text] C3_doc\<rparr>"
  unfolding process_svg_def C3_dims C3_text_nodes C3_text_loop
  by (simp add: C3_clean)

text \<open>
  Claim C3. For every text element that yields a label, with cumulative transform
  \<open>[[a,c,e],[b,d,f],[g,h,i]]\<close>, anchor point \<open>(x,y)\<close> and nominal font size \<open>s\<close>, the
  effective font size is \<open>s \<cdot> sqrt (b\<^sup>2 + d\<^sup>2) \<cdot> 72/96\<close> and the position is the
  transformed point times 72/96, its \<open>y\<close> less 0.8 times the effective font size. The
  bottom row \<open>g h i\<close> is always \<open>0 0 1\<close>, but for an entry that is not finite in a column
  with another entry that is not finite; so for finite numbers the transform is
  \<open>[[a,c,e],[b,d,f],[0,0,1]]\<close> and the formulas are those of real arithmetic. The
  text element at (10,20) under \<^verbatim>\<open>translate(5,5)\<close> with style
  \<^verbatim>\<open>font-size:20px;text-anchor:middle\<close> and content \<^verbatim>\<open>Label\<close> yields \<open>x\<close> = 11.25,
  font size 15, \<open>y\<close> = 6.75 and the anchor \<^verbatim>\<open>middle\<close>.
\<close>

theorem label_position_and_font_size:
  "(process_text_node anc node = Inr (Some L) \<longrightarrow>
      (\<exists>a b c d e f g h i x y s.
          get_cumulative_transform anc node = Inr (Mat a c e b d f g h i)
        \<and> (g = 0 \<or> g = NonFinite \<and> (a = NonFinite \<or> b = NonFinite))
        \<and> (h = 0 \<or> h = NonFinite \<and> (c = NonFinite \<or> d = NonFinite))
        \<and> (i = 1 \<or> i = NonFinite \<and> (e = NonFinite \<or> f = NonFinite))
        \<and> py_float (get node ''x'' ''0'') = Inr x
        \<and> py_float (get node ''y'' ''0'') = Inr y
        \<and> font_size_of (get node ''style'' []) = Inr s
        \<and> font_size_pt L = s * py_sqrt (b\<^sup>2 + d\<^sup>2) * Finite (72 / 96)
        \<and> x_pt L = (a * x + c * y + e) * Finite (72 / 96)
        \<and> y_pt L = (b * x + d * y + f) * Finite (72 / 96) - Finite 0.8 * font_size_pt L
        \<and> content L = strip (itertext node)
        \<and> anchor L = text_anchor_of node))
   \<and> (process_text_node anc node = Inr (Some L)
      \<and> get_cumulative_transform anc node
          = Inr (Mat (Finite a') (Finite c') (Finite e') (Finite b') (Finite d') (Finite f') g' h' i')
      \<and> py_float (get node ''x'' ''0'') = Inr (Finite x')
      \<and> py_float (get node ''y'' ''0'') = Inr (Finite y')
      \<and> font_size_of (get node ''style'' []) = Inr (Finite s')
     \<longrightarrow> g' = 0 \<and> h' = 0 \<and> i' = 1
        \<and> font_size_pt L = Finite (s' * sqrt (b'\<^sup>2 + d'\<^sup>2) * (72 / 96))
        \<and> x_pt L = Finite ((a' * x' + c' * y' + e') * (72 / 96))
        \<and> y_pt L = Finite ((b' * x' + d' * y' + f') * (72 / 96)
                            - 0.8 * (s' * sqrt (b'\<^sup>2 + d'\<^sup>2) * (72 / 96))))
   \<and> text_nodes [] C3_doc = [([C3_group, C3_doc], C3_text)]
   \<and> get_cumulative_transform [C3_group, C3_doc] C3_text
       = Inr (Mat (Finite 1) (Finite 0) (Finite 5) (Finite 0) (Finite 1) (Finite 5) 0 0 1)
   \<and> matvec (Mat (Finite 1) (Finite 0) (Finite 5) (Finite 0) (Finite 1) (Finite 5) 0 0 1)
        (Finite 10, Finite 20, 1) = (Finite 15, Finite 25, 1)
   \<and> process_text_node [C3_group, C3_doc] C3_text =
       Inr (Some \<lparr>x_pt = Finite 11.25, y_pt = Finite 6.75, font_size_pt = Finite 15,
                  content = ''Label'', anchor = ''middle''\<rparr>)
   \<and> process_svg C3_doc =
       Inr \<lparr>width_pt = Finite 75, height_pt = Finite 37.5,
            labels = [\<lparr>x_pt = Finite 11.25, y_pt = Finite 6.75, font_size_pt = Finite 15,
                       content = ''Label'', anchor = ''middle''\<rparr>],
            removed = [ident C3_text], clean_tree = prune [ident C3_text] C3_doc\<rparr>"
proof -
  have g: "get_cumulative_transform [C3_group, C3_doc] C3_text
       = Inr (Mat (Finite 1) (Finite 0) (Finite 5) (Finite 0) (Finite 1) (Finite 5) 0 0 1)"
    by code_simp
  have v: "matvec (Mat (Finite 1) (Finite 0) (Finite 5) (Finite 0) (Finite 1) (Finite 5) 0 0 1)
        (Finite 10, Finite 20, 1) = (Finite 15, Finite 25, 1)"
    by (simp add: pyfloat_arith zero_pyfloat_def one_pyfloat_def)
  have f: "process_text_node anc node = Inr (Some L)
      \<and> get_cumulative_transform anc node
          = Inr (Mat (Finite a') (Finite c') (Finite e') (Finite b') (Finite d') (Finite f') g' h' i')
      \<and> py_float (get node ''x'' ''0'') = Inr (Finite x')
      \<and> py_float (get node ''y'' ''0'') = Inr (Finite y')
      \<and> font_size_of (get node ''style'' []) = Inr (Finite s')
     \<longrightarrow> g' = 0 \<and> h' = 0 \<and> i' = 1
        \<and> font_size_pt L = Finite (s' * sqrt (b'\<^sup>2 + d'\<^sup>2) * (72 / 96))
        \<and> x_pt L = Finite ((a' * x' + c' * y' + e') * (72 / 96))
        \<and> y_pt L = Finite ((b' * x' + d' * y' + f') * (72 / 96)
                            - 0.8 * (s' * sqrt (b'\<^sup>2 + d'\<^sup>2) * (72 / 96)))"
    using C3_finite [of anc node L a' c' e' b' d' f' g' h' i' x' y' s'] by blast
  have t: "process_text_node anc node = Inr (Some L) \<longrightarrow>
      (\<exists>a b c d e f g h i x y s.
          get_cumulative_transform anc node = Inr (Mat a c e b d f g h i)
        \<and> (g = 0 \<or> g = NonFinite \<and> (a = NonFinite \<or> b = NonFinite))
        \<and> (h = 0 \<or> h = NonFinite \<and> (c = NonFinite \<or> d = NonFinite))
        \<and> (i = 1 \<or> i = NonFinite \<and> (e = NonFinite \<or> f = NonFinite))
        \<and> py_float (get node ''x'' ''0'') = Inr x
        \<and> py_float (get node ''y'' ''0'') = Inr y
        \<and> font_size_of (get node ''style'' []) = Inr s
        \<and> font_size_pt L = s * py_sqrt (b\<^sup>2 + d\<^sup>2) * Finite (72 / 96)
        \<and> x_pt L = (a * x + c * y + e) * Finite (72 / 96)
        \<and> y_pt L = (b * x + d * y + f) * Finite (72 / 96) - Finite 0.8 * font_size_pt L
        \<and> content L = strip (itertext node)
        \<and> anchor L = text_anchor_of node)"
    using C3_general [of anc node L] by (rule impI)
  show ?thesis
    by (intro conjI t f C3_text_nodes g v C3_process_text_node C3_process_svg)
qed

theorem label_position_and_font_size_witness:
  "process_text_node [C3_group, C3_doc] C3_text =
       Inr (Some \<lparr>x_pt = Finite 11.25, y_pt = Finite 6.75, font_size_pt = Finite 15,
                  content = ''Label'', anchor = ''middle''\<rparr>)
   \<and> get_cumulative_transform [C3_group, C3_doc] C3_text
       = Inr (Mat (Finite 1) (Finite 0) (Finite 5) (Finite 0) (Finite 1) (Finite 5) 0 0 1)
   \<and> py_float (get C3_text ''x'' ''0'') = Inr (Finite 10)
   \<and> py_float (get C3_text ''y'' ''0'') = Inr (Finite 20)
   \<and> font_size_of (get C3_text ''style'' []) = Inr (Finite 20)
   \<and> Finite 15 = Finite (20 * sqrt (0\<^sup>2 + 1\<^sup>2) * (72 / 96))
   \<and> Finite 11.25 = Finite ((1 * 10 + 0 * 20 + 5) * (72 / 96))
   \<and> Finite 6.75 = Finite ((0 * 10 + 1 * 20 + 5) * (72 / 96)
                            - 0.8 * (20 * sqrt (0\<^sup>2 + 1\<^sup>2) * (72 / 96)))
   \<and> (\<exists>a b c d e f g h i x y s.
          get_cumulative_transform [C3_group, C3_doc] C3_text = Inr (Mat a c e b d f g h i)
        \<and> py_float (get C3_text ''x'' ''0'') = Inr x
        \<and> py_float (get C3_text ''y'' ''0'') = Inr y
        \<and> font_size_of (get C3_text ''style'' []) = Inr s
        \<and> Finite 15 = s * py_sqrt (b\<^sup>2 + d\<^sup>2) * Finite (72 / 96)
        \<and> Finite 11.25 = (a * x + c * y + e) * Finite (72 / 96))"
proof -
  let ?L = "\<lparr>x_pt = Finite 11.25, y_pt = Finite 6.75, font_size_pt = Finite 15,
             content = ''Label'', anchor = ''middle''\<rparr>"
  note t = label_position_and_font_size
    [of "[C3_group, C3_doc]" C3_text ?L 1 0 5 0 1 5 0 0 1 10 20 20]
  have h: "process_text_node [C3_group, C3_doc] C3_text = Inr (Some ?L)"
    and g: "get_cumulative_transform [C3_group, C3_doc] C3_text
       = Inr (Mat (Finite 1) (Finite 0) (Finite 5) (Finite 0) (Finite 1) (Finite 5) 0 0 1)"
    using t by blast+
  have 1: "py_float (get C3_text ''x'' ''0'') = Inr (Finite 10)" by code_simp
  have 2: "py_float (get C3_text ''y'' ''0'') = Inr (Finite 20)" by code_simp
  have 3: "font_size_of (get C3_text ''style'' []) = Inr (Finite 20)" by code_simp
  from t h g 1 2 3 have
    "font_size_pt ?L = Finite (20 * sqrt (0\<^sup>2 + 1\<^sup>2) * (72 / 96))
     \<and> x_pt ?L = Finite ((1 * 10 + 0 * 20 + 5) * (72 / 96))
     \<and> y_pt ?L = Finite ((0 * 10 + 1 * 20 + 5) * (72 / 96)
                            - 0.8 * (20 * sqrt (0\<^sup>2 + 1\<^sup>2) * (72 / 96)))"
    by blast
  then have 4: "Finite 15 = Finite (20 * sqrt (0\<^sup>2 + 1\<^sup>2) * (72 / 96))"
    and 5: "Finite 11.25 = Finite ((1 * 10 + 0 * 20 + 5) * (72 / 96))"
    and 6: "Finite 6.75 = Finite ((0 * 10 + 1 * 20 + 5) * (72 / 96)
                            - 0.8 * (20 * sqrt (0\<^sup>2 + 1\<^sup>2) * (72 / 96)))"
    by simp_all
  from t h have "\<exists>a b c d e f g h i x y s.
          get_cumulative_transform [C3_group, C3_doc] C3_text = Inr (Mat a c e b d f g h i)
        \<and> py_float (get C3_text ''x'' ''0'') = Inr x
        \<and> py_float (get C3_text ''y'' ''0'') = Inr y
        \<and> font_size_of (get C3_text ''style'' []) = Inr s
        \<and> font_size_pt ?L = s * py_sqrt (b\<^sup>2 + d\<^sup>2) * Finite (72 / 96)
        \<and> x_pt ?L = (a * x + c * y + e) * Finite (72 / 96)"
    by blast
  then have 7: "\<exists>a b c d e f g h i x y s.
          get_cumulative_transform [C3_group, C3_doc] C3_text = Inr (Mat a c e b d f g h i)
        \<and> py_float (get C3_text ''x'' ''0'') = Inr x
        \<and> py_float (get C3_text ''y'' ''0'') = Inr y
        \<and> font_size_of (get C3_text ''style'' []) = Inr s
        \<and> Finite 15 = s * py_sqrt (b\<^sup>2 + d\<^sup>2) * Finite (72 / 96)
        \<and> Finite 11.25 = (a * x + c * y + e) * Finite (72 / 96)"
    by simp
  show ?thesis
    by (intro conjI h g 1 2 3 4 5 6 7)
qed

lemma process_text_node_empty:
  assumes "strip (itertext node) = []"
    and "py_float (get node ''x'' ''0'') = Inr x"
    and "py_float (get node ''y'' ''0'') = Inr y"
    and "font_size_of (get node ''style'' []) = Inr s"
  shows "process_text_node anc node = Inr None"
  using assms by (simp add: process_text_node_def)

lemma text_loop_removed:
  "text_loop ns ls R = Inr (ls', R') \<Longrightarrow>
   set R' = set R \<union> {ident n | a n. (a, n) \<in> set ns \<and> (\<exists>l. process_text_node a n = Inr (Some l))}"
proof (induction ns arbitrary: ls R)
  case Nil
  then show ?case by simp
next
  case (Cons m ns)
  obtain a n where m: "m = (a, n)" by (cases m)
  show ?case
  proof (cases "process_text_node a n")
    case (Inl e)
    with Cons.prems show ?thesis by (simp add: m)
  next
    case (Inr r)
    show ?thesis
    proof (cases r)
      case None
      with Inr Cons.prems have "text_loop ns ls R = Inr (ls', R')" by (simp add: m)
      from Cons.IH [OF this] show ?thesis using Inr None by (auto simp: m)
    next
      case (Some l)
      with Inr Cons.prems have "text_loop ns (ls @ [l]) (R @ [ident n]) = Inr (ls', R')"
        by (simp add: m)
      from Cons.IH [OF this] show ?thesis using Inr Some by (auto simp: m)
    qed
  qed
qed

lemma text_nodes_cases:
  assumes "(a, n) \<in> set (text_nodes anc0 (Element i t ats x cs tx))"
  obtains "a = anc0" "n = Element i t ats x cs tx"
  | c where "c \<in> set cs" "(a, n) \<in> set (text_nodes (Element i t ats x cs tx # anc0) c)"
  using assms by (auto split: if_splits)

lemma text_nodes_ids: "(a, n) \<in> set (text_nodes anc0 e) \<Longrightarrow> ident n \<in> set (ids_of e)"
proof (induction e arbitrary: anc0)
  case (Element i t ats x cs tx)
  from Element.prems show ?case
  proof (cases rule: text_nodes_cases)
    case 1
    then show ?thesis by simp
  next
    case (2 c)
    with Element.IH [OF 2(1) 2(2)] show ?thesis by auto
  qed
qed

lemma distinct_concat_same:
  "distinct (concat (map f cs)) \<Longrightarrow> c1 \<in> set cs \<Longrightarrow> c2 \<in> set cs \<Longrightarrow>
   x \<in> set (f c1) \<Longrightarrow> x \<in> set (f c2) \<Longrightarrow> c1 = c2"
  by (induction cs) auto

lemma distinct_concat_part:
  "distinct (concat (map f cs)) \<Longrightarrow> c \<in> set cs \<Longrightarrow> distinct (f c)"
  by (induction cs) auto

lemma text_nodes_inj:
  "distinct (ids_of e) \<Longrightarrow> (a1, n1) \<in> set (text_nodes anc0 e) \<Longrightarrow>
   (a2, n2) \<in> set (text_nodes anc0 e) \<Longrightarrow> ident n1 = ident n2 \<Longrightarrow> a1 = a2 \<and> n1 = n2"
proof (induction e arbitrary: anc0)
  case (Element i t ats x cs tx)
  let ?e = "Element i t ats x cs tx"
  from Element.prems(1) have i: "i \<notin> set (concat (map ids_of cs))"
    and d: "distinct (concat (map ids_of cs))" by simp_all
  have child: "ident n \<noteq> i" if "c \<in> set cs" "(a, n) \<in> set (text_nodes (?e # anc0) c)" for c a n
    using text_nodes_ids [OF that(2)] that(1) i by auto
  from Element.prems(2) show ?case
  proof (cases rule: text_nodes_cases)
    case 1
    from Element.prems(3) show ?thesis
    proof (cases rule: text_nodes_cases)
      case 1
      with \<open>a1 = anc0\<close> \<open>n1 = ?e\<close> show ?thesis by simp
    next
      case (2 c)
      with child [OF 2] \<open>n1 = ?e\<close> Element.prems(4) show ?thesis by simp
    qed
  next
    case (2 c1)
    note c1 = this
    from Element.prems(3) show ?thesis
    proof (cases rule: text_nodes_cases)
      case 1
      with child [OF c1] Element.prems(4) show ?thesis by simp
    next
      case (2 c2)
      have "ident n1 \<in> set (ids_of c1)" "ident n2 \<in> set (ids_of c2)"
        using text_nodes_ids c1(2) 2(2) by blast+
      with Element.prems(4) have e: "c1 = c2"
        using distinct_concat_same [OF d c1(1) 2(1), of "ident n1"] by simp
      have dd: "distinct (ids_of c1)"
        using distinct_concat_part [OF d c1(1)] .
      show ?thesis
        using Element.IH [OF c1(1) dd c1(2)] 2(2) Element.prems(4) unfolding e by blast
    qed
  qed
qed

lemma ids_of_prune_child:
  assumes "c \<in> set cs" "ident c \<notin> set R" "j \<in> set (ids_of (prune R c))"
  shows "j \<in> set (ids_of (prune R (Element i t ats x cs tx)))"
  using assms by auto

lemma ident_prune: "ident (prune R e) = ident e"
  by (cases e) simp

lemma ids_of_ident: "ident e \<in> set (ids_of e)"
  by (cases e) simp

lemma prune_keeps:
  "(anc, node) \<in> set (text_nodes anc0 e) \<Longrightarrow>
   \<exists>p. anc = p @ anc0 \<and> (if p = [] then node = e else last p = e)
       \<and> (list_all (\<lambda>a. ident a \<notin> set R) p \<and> ident node \<notin> set R
            \<longrightarrow> ident node \<in> set (ids_of (prune R e)))"
proof (induction e arbitrary: anc0)
  case (Element i t ats x cs tx)
  let ?e = "Element i t ats x cs tx"
  from Element.prems show ?case
  proof (cases rule: text_nodes_cases)
    case 1
    then show ?thesis by (intro exI [of _ "[]"]) simp
  next
    case (2 c)
    from Element.IH [OF 2(1) 2(2)] obtain p where
      p: "anc = p @ ?e # anc0" "if p = [] then node = c else last p = c"
      and k: "list_all (\<lambda>a. ident a \<notin> set R) p \<and> ident node \<notin> set R
            \<longrightarrow> ident node \<in> set (ids_of (prune R c))"
      by blast
    have "ident node \<in> set (ids_of (prune R ?e))"
      if h: "list_all (\<lambda>a. ident a \<notin> set R) (p @ [?e])" "ident node \<notin> set R"
    proof -
      have "ident c \<notin> set R"
      proof (cases "p = []")
        case True
        with p(2) h(2) show ?thesis by simp
      next
        case False
        with p(2) have "c \<in> set p" using last_in_set by fastforce
        with h(1) show ?thesis by (simp add: list_all_iff)
      qed
      moreover have "ident node \<in> set (ids_of (prune R c))" using k h by simp
      ultimately show ?thesis using 2(1) by (rule ids_of_prune_child [rotated])
    qed
    then show ?thesis
      using p(1) by (intro exI [of _ "p @ [?e]"]) simp
  qed
qed

lemma process_svg_InrD:
  assumes "process_svg doc = Inr out"
  obtains ls where "text_loop (text_nodes [] doc) [] [] = Inr (ls, removed out)"
    "ident doc \<notin> set (removed out)" "clean_tree out = prune (removed out) doc"
  using assms
  by (auto simp: process_svg_def clean_svg_def split: sum.splits prod.splits if_splits)

text \<open>
  Claim C9 says that a text element without content raises no error and remains in the
  cleaned document. Its \<open>x\<close>, \<open>y\<close> and font size are parsed before its content is
  looked at, so an \<open>x\<close> of \<^verbatim>\<open>1 2\<close> raises \<^verbatim>\<open>ValueError\<close>; and an element without
  content inside a text element that has some leaves the document with it.
\<close>

theorem empty_text_counterexample:
  "strip (itertext C9_blank) = []
   \<and> text_nodes [] C9_doc = [([C9_doc], C9_blank)]
   \<and> process_text_node [C9_doc] C9_blank = Inl ValueError
   \<and> process_svg C9_doc = Inl (Uncaught ValueError)
   \<and> strip (itertext C9_inner) = []
   \<and> text_nodes [] C9_nested = [([C9_nested], C9_outer), ([C9_outer, C9_nested], C9_inner)]
   \<and> process_text_node [C9_outer, C9_nested] C9_inner = Inr None
   \<and> ident C9_inner \<notin> set (ids_of (prune [ident C9_outer] C9_nested))"
proof -
  have 1: "strip (itertext C9_blank) = []" by code_simp
  have 2: "text_nodes [] C9_doc = [([C9_doc], C9_blank)]" by code_simp
  have x: "py_float (get C9_blank ''x'' ''0'') = Inl ValueError" by code_simp
  have 3: "process_text_node [C9_doc] C9_blank = Inl ValueError"
    unfolding process_text_node_def x by simp
  have d: "parse_svg_dimensions C9_doc = Inr (Finite 7.5, Finite 7.5)" by code_simp
  have 4: "process_svg C9_doc = Inl (Uncaught ValueError)"
    unfolding process_svg_def d 2 by (simp add: 3)
  have 5: "strip (itertext C9_inner) = []" by code_simp
  have 6: "text_nodes [] C9_nested = [([C9_nested], C9_outer), ([C9_outer, C9_nested], C9_inner)]"
    by code_simp
  have y: "py_float (get C9_inner ''x'' ''0'') = Inr 0" "py_float (get C9_inner ''y'' ''0'') = Inr 0"
    "font_size_of (get C9_inner ''style'' []) = Inr 16"
    by code_simp+
  have 7: "process_text_node [C9_outer, C9_nested] C9_inner = Inr None"
    using 5 y by (rule process_text_node_empty)
  have 8: "ident C9_inner \<notin> set (ids_of (prune [ident C9_outer] C9_nested))" by code_simp
  show ?thesis by (intro conjI 1 2 3 4 5 6 7 8)
qed

text \<open>
  Claim C9, amended. A text element whose content is empty after trimming, and whose
  \<open>x\<close>, \<open>y\<close> and font size parse, yields no label and no error, and is not added to the
  list of the nodes to remove: it is in the cleaned document unless an element that
  encloses it is removed.
\<close>

theorem empty_text_is_skipped:
  "strip (itertext node) = [] \<and> py_float (get node ''x'' ''0'') = Inr x
     \<and> py_float (get node ''y'' ''0'') = Inr y \<and> font_size_of (get node ''style'' []) = Inr s
   \<longrightarrow> process_text_node anc node = Inr None
       \<and> text_loop ((anc, node) # rest) ls R = text_loop rest ls R
       \<and> (distinct (ids_of doc) \<and> (anc, node) \<in> set (text_nodes [] doc)
            \<and> process_svg doc = Inr out
           \<longrightarrow> ident node \<notin> set (removed out)
               \<and> (list_all (\<lambda>a. ident a \<notin> set (removed out)) anc
                    \<longrightarrow> ident node \<in> set (ids_of (clean_tree out))))"
proof (intro impI)
  assume a: "strip (itertext node) = [] \<and> py_float (get node ''x'' ''0'') = Inr x
     \<and> py_float (get node ''y'' ''0'') = Inr y \<and> font_size_of (get node ''style'' []) = Inr s"
  then have none: "process_text_node anc node = Inr None"
    using process_text_node_empty by blast
  have step: "text_loop ((anc, node) # rest) ls R = text_loop rest ls R"
    by (simp add: none)
  have kept: "ident node \<notin> set (removed out)
               \<and> (list_all (\<lambda>a. ident a \<notin> set (removed out)) anc
                    \<longrightarrow> ident node \<in> set (ids_of (clean_tree out)))"
    if h: "distinct (ids_of doc) \<and> (anc, node) \<in> set (text_nodes [] doc)
            \<and> process_svg doc = Inr out"
  proof -
    from h obtain ls' where
      tl: "text_loop (text_nodes [] doc) [] [] = Inr (ls', removed out)" and
      ct: "clean_tree out = prune (removed out) doc"
      using process_svg_InrD by blast
    have nr: "ident node \<notin> set (removed out)"
    proof
      assume "ident node \<in> set (removed out)"
      with text_loop_removed [OF tl] obtain a n l where
        an: "(a, n) \<in> set (text_nodes [] doc)" "process_text_node a n = Inr (Some l)"
        "ident n = ident node" by auto
      from text_nodes_inj [OF _ an(1) _ an(3)] h have "a = anc" "n = node" by blast+
      with an(2) none show False by simp
    qed
    from prune_keeps [of anc node "[]" doc "removed out"] h
    have "list_all (\<lambda>a. ident a \<notin> set (removed out)) anc \<and> ident node \<notin> set (removed out)
            \<longrightarrow> ident node \<in> set (ids_of (prune (removed out) doc))"
      by auto
    with nr ct show ?thesis by simp
  qed
  from none step kept show "process_text_node anc node = Inr None
       \<and> text_loop ((anc, node) # rest) ls R = text_loop rest ls R
       \<and> (distinct (ids_of doc) \<and> (anc, node) \<in> set (text_nodes [] doc)
            \<and> process_svg doc = Inr out
           \<longrightarrow> ident node \<notin> set (removed out)
               \<and> (list_all (\<lambda>a. ident a \<notin> set (removed out)) anc
                    \<longrightarrow> ident node \<in> set (ids_of (clean_tree out))))"
    by blast
qed

lemma C9_page_run:
  "process_svg C9_page =
     Inr \<lparr>width_pt = Finite 7.5, height_pt = Finite 7.5,
          labels = [make_label identity3 0 0 16 ''Hi'' ''start''],
          removed = [1],
          clean_tree = Element 0 svg_svg [(''width'', ''10''), (''height'', ''10'')] []
                         [C9_quiet] []\<rparr>"
proof -
  have d: "parse_svg_dimensions C9_page = Inr (Finite 7.5, Finite 7.5)" by code_simp
  have t: "text_nodes [] C9_page = [([C9_page], C9_shown), ([C9_page], C9_quiet)]" by code_simp
  have x: "py_float (get C9_shown ''x'' ''0'') = Inr 0" "py_float (get C9_shown ''y'' ''0'') = Inr 0"
    "font_size_of (get C9_shown ''style'' []) = Inr 16" "text_anchor_of C9_shown = ''start''"
    "strip (itertext C9_shown) = ''Hi''"
    "get_cumulative_transform [C9_page] C9_shown = Inr identity3"
    by code_simp+
  have 1: "process_text_node [C9_page] C9_shown =
           Inr (Some (make_label identity3 0 0 16 ''Hi'' ''start''))"
    unfolding process_text_node_def x by simp
  have q: "strip (itertext C9_quiet) = []" "py_float (get C9_quiet ''x'' ''0'') = Inr 3"
    "py_float (get C9_quiet ''y'' ''0'') = Inr 0" "font_size_of (get C9_quiet ''style'' []) = Inr 16"
    by code_simp+
  have 2: "process_text_node [C9_page] C9_quiet = Inr None"
    using q by (rule process_text_node_empty)
  have i: "ident C9_shown = 1" by code_simp
  have l: "text_loop [([C9_page], C9_shown), ([C9_page], C9_quiet)] [] [] =
           Inr ([make_label identity3 0 0 16 ''Hi'' ''start''], [1])"
    unfolding text_loop.simps 1 2 by (simp add: i)
  have c: "clean_svg [1] C9_page =
      Inr (Element 0 svg_svg [(''width'', ''10''), (''height'', ''10'')] [] [C9_quiet] [])"
    by code_simp
  show ?thesis
    unfolding process_svg_def d t l by (simp add: c [simplified])
qed

theorem empty_text_is_skipped_witness:
  "strip (itertext C9_quiet) = [] \<and> py_float (get C9_quiet ''x'' ''0'') = Inr 3
   \<and> py_float (get C9_quiet ''y'' ''0'') = Inr 0
   \<and> font_size_of (get C9_quiet ''style'' []) = Inr 16
   \<and> distinct (ids_of C9_page) \<and> ([C9_page], C9_quiet) \<in> set (text_nodes [] C9_page)
   \<and> process_svg C9_page =
       Inr \<lparr>width_pt = Finite 7.5, height_pt = Finite 7.5,
            labels = [make_label identity3 0 0 16 ''Hi'' ''start''],
            removed = [1],
            clean_tree = Element 0 svg_svg [(''width'', ''10''), (''height'', ''10'')] []
                           [C9_quiet] []\<rparr>
   \<and> list_all (\<lambda>a. ident a \<notin> set [1 :: nat]) [C9_page]
   \<and> process_text_node [C9_page] C9_quiet = Inr None
   \<and> ident C9_quiet \<notin> set [1 :: nat]
   \<and> ident C9_quiet \<in> set (ids_of (Element 0 svg_svg [(''width'', ''10''), (''height'', ''10'')] []
                           [C9_quiet] []))"
proof -
  have h1: "strip (itertext C9_quiet) = []" by code_simp
  have h2: "py_float (get C9_quiet ''x'' ''0'') = Inr 3" by code_simp
  have h3: "py_float (get C9_quiet ''y'' ''0'') = Inr 0" by code_simp
  have h4: "font_size_of (get C9_quiet ''style'' []) = Inr 16" by code_simp
  have h5: "distinct (ids_of C9_page)" by code_simp
  have h6: "([C9_page], C9_quiet) \<in> set (text_nodes [] C9_page)" by code_simp
  have h7: "list_all (\<lambda>a. ident a \<notin> set [1 :: nat]) [C9_page]" by code_simp
  note t = empty_text_is_skipped
    [of C9_quiet 3 0 16 "[C9_page]" _ _ _ C9_page
        "\<lparr>width_pt = Finite 7.5, height_pt = Finite 7.5,
            labels = [make_label identity3 0 0 16 ''Hi'' ''start''],
            removed = [1],
            clean_tree = Element 0 svg_svg [(''width'', ''10''), (''height'', ''10'')] []
                           [C9_quiet] []\<rparr>"]
  have r1: "process_text_node [C9_page] C9_quiet = Inr None"
    using t h1 h2 h3 h4 by blast
  have r2: "ident C9_quiet \<notin> set [1 :: nat]"
    using t h1 h2 h3 h4 h5 h6 C9_page_run by simp
  have r3: "ident C9_quiet \<in> set (ids_of (Element 0 svg_svg
              [(''width'', ''10''), (''height'', ''10'')] [] [C9_quiet] []))"
    using t h1 h2 h3 h4 h5 h6 h7 C9_page_run by simp
  show ?thesis
    by (intro conjI h1 h2 h3 h4 h5 h6 C9_page_run h7 r1 r2 r3)
qed

end
